theory Spec2Isabelle
  imports Complex_Main "HOL-Library.Word" "HOL-Library.AList"
begin

unbundle bit_operations_syntax

section \<open>JavaScript values\<close>

text \<open>
  A JavaScript string is a sequence of UTF-16 code units: \<open>length\<close> counts them and
  \<open>charCodeAt\<close> reads one.  String literals of the source are ASCII and are written
  with \<open>lit\<close>.
\<close>

type_synonym jsstring = "16 word list"

definition lit :: "string \<Rightarrow> jsstring" where
  "lit s = map (\<lambda>c. of_nat (of_char c)) s"

text \<open>
  The values the program handles as \<open>any\<close> / \<open>unknown\<close>.  \<open>JSON.parse\<close> yields every
  constructor but \<open>JUndefined\<close>, which is what reading an absent property gives.
  A number carries the value of the parsed double.
\<close>

datatype jsval =
    JUndefined
  | JNull
  | JBool bool
  | JNum rat
  | JStr jsstring
  | JArr "jsval list"
  | JObj "(jsstring \<times> jsval) list"

text \<open>
  Reading a property of a value that is neither \<open>null\<close> nor \<open>undefined\<close>.  The
  names read by this program (\<open>type\<close>, \<open>token\<close>, \<open>id\<close>, ...) are own properties of
  parsed objects only; on a primitive or an array they are \<open>undefined\<close>.  On \<open>null\<close>
  and \<open>undefined\<close> the access throws a \<open>TypeError\<close>, which the callers check first.
\<close>

fun getProp :: "jsval \<Rightarrow> jsstring \<Rightarrow> jsval" where
  "getProp (JObj kvs) k = (case map_of kvs k of Some v \<Rightarrow> v | None \<Rightarrow> JUndefined)"
| "getProp _ k = JUndefined"

fun truthy :: "jsval \<Rightarrow> bool" where
  "truthy JUndefined = False"
| "truthy JNull = False"
| "truthy (JBool b) = b"
| "truthy (JNum r) = (r \<noteq> 0)"
| "truthy (JStr s) = (s \<noteq> [])"
| "truthy (JArr _) = True"
| "truthy (JObj _) = True"

section \<open>Test session (session.ts)\<close>

record assertion =
  passed :: bool
  message :: jsstring
  timestamp :: jsstring

record session_summary =
  sum_name :: jsstring
  sum_passed :: bool
  total :: nat
  passed_count :: nat
  failed_count :: nat
  sum_assertions :: "assertion list"
  sum_startedAt :: jsstring
  endedAt :: jsstring
  durationMs :: int

text \<open>
  The private fields of \<open>TestSession\<close>.  A \<open>Date\<close> is its millisecond count; the
  formatting function \<open>toISOString\<close> of the platform is the parameter \<open>toISO\<close>, and
  the reading of the clock made by \<open>new Date()\<close> is the parameter \<open>now\<close>.
\<close>

record test_session =
  name :: "jsstring option"
  assertions :: "assertion list"
  startedAt :: "int option"

definition new_TestSession :: test_session where
  "new_TestSession = \<lparr> name = None, assertions = [], startedAt = None \<rparr>"

definition active :: "test_session \<Rightarrow> bool" where
  "active s = (name s \<noteq> None)"

definition session_start :: "int \<Rightarrow> jsstring \<Rightarrow> test_session \<Rightarrow> test_session" where
  "session_start now nm s = s \<lparr> name := Some nm, assertions := [], startedAt := Some now \<rparr>"

definition addAssertion ::
  "(int \<Rightarrow> jsstring) \<Rightarrow> int \<Rightarrow> bool \<Rightarrow> jsstring \<Rightarrow> test_session \<Rightarrow> test_session" where
  "addAssertion toISO now p m s =
     s \<lparr> assertions := assertions s @ [\<lparr> passed = p, message = m, timestamp = toISO now \<rparr>] \<rparr>"

definition session_end ::
  "(int \<Rightarrow> jsstring) \<Rightarrow> int \<Rightarrow> test_session \<Rightarrow> session_summary \<times> test_session" where
  "session_end toISO now s =
     (let endedAt' = now;
          passedCount = length (filter (\<lambda>a. passed a) (assertions s));
          failedCount = length (filter (\<lambda>a. \<not> passed a) (assertions s));
          summary = \<lparr>
            sum_name = (case name s of Some n \<Rightarrow> n | None \<Rightarrow> lit ''unnamed''),
            sum_passed = (failedCount = 0),
            total = length (assertions s),
            passed_count = passedCount,
            failed_count = failedCount,
            sum_assertions = assertions s,
            sum_startedAt = (case startedAt s of Some t \<Rightarrow> toISO t | None \<Rightarrow> toISO endedAt'),
            endedAt = toISO endedAt',
            durationMs = endedAt' - (case startedAt s of Some t \<Rightarrow> t | None \<Rightarrow> endedAt') \<rparr>
      in (summary, s \<lparr> name := None, assertions := [], startedAt := None \<rparr>))"

text \<open>A run of \<open>addAssertion\<close> calls, each with its clock reading, verdict and message.\<close>

fun addAssertions ::
  "(int \<Rightarrow> jsstring) \<Rightarrow> (int \<times> bool \<times> jsstring) list \<Rightarrow> test_session \<Rightarrow> test_session" where
  "addAssertions toISO [] s = s"
| "addAssertions toISO ((t, p, m) # cs) s = addAssertions toISO cs (addAssertion toISO t p m s)"

section \<open>WebSocket bridge (ws-bridge.ts)\<close>

subsection \<open>Security helpers\<close>

text \<open>
  \<open>charCodeAt\<close> is \<open>NaN\<close> out of range, and \<open>NaN\<close> is 0 under the 32-bit operators
  \<open>^\<close> and \<open>|\<close>.
\<close>

definition charCodeAt32 :: "jsstring \<Rightarrow> nat \<Rightarrow> 32 word" where
  "charCodeAt32 s i = (if i < length s then ucast (s ! i) else 0)"

text \<open>
  The loop of \<open>timingSafeEqual\<close>, on its two variables \<open>i\<close> and \<open>result\<close>; it returns
  their final values.
\<close>

function timingSafeEqual_loop :: "jsstring \<Rightarrow> jsstring \<Rightarrow> nat \<Rightarrow> 32 word \<Rightarrow> nat \<times> 32 word" where
  "timingSafeEqual_loop a b i result =
     (if i < length a
      then timingSafeEqual_loop a b (i + 1) (result OR (charCodeAt32 a i XOR charCodeAt32 b i))
      else (i, result))"
  by pat_completeness auto
termination
  by (relation "measure (\<lambda>(a, b, i, result). length a - i)") auto

declare timingSafeEqual_loop.simps [simp del]

definition timingSafeEqual :: "jsstring \<Rightarrow> jsstring \<Rightarrow> bool" where
  "timingSafeEqual a b =
     (if length a \<noteq> length b then False
      else snd (timingSafeEqual_loop a b 0 0) = 0)"

definition truncated :: jsstring where
  "truncated = lit ''...[truncated]''"

fun sanitizeForLog :: "(jsstring \<times> jsval) list \<Rightarrow> (jsstring \<times> jsval) list" where
  "sanitizeForLog [] = []"
| "sanitizeForLog ((key, JStr v) # rest) =
     (if length v > 200 then (key, JStr (take 200 v @ truncated)) # sanitizeForLog rest
      else (key, JStr v) # sanitizeForLog rest)"
| "sanitizeForLog ((key, v) # rest) = (key, v) # sanitizeForLog rest"

subsection \<open>State\<close>

type_synonym sock = nat

datatype ready_state = CONNECTING | OPEN | CLOSING | CLOSED

text \<open>
  The errors the bridge raises or rejects a promise with:
  \<^item> \<open>NotConnected\<close>: "Extension not connected. Make sure the Chrome extension is running
    and authenticated.";
  \<^item> \<open>TimedOut command timeoutMs\<close>: "Command "<command>" timed out after <timeoutMs>ms";
  \<^item> \<open>Disconnected\<close>: "Extension disconnected";
  \<^item> \<open>ShuttingDown\<close>: "Server shutting down";
  \<^item> \<open>PeerError e\<close>: \<open>new Error(msg.error ?? 'Command failed')\<close>, with \<open>e\<close> the argument;
  \<^item> \<open>TypeError\<close>: a property read on \<open>null\<close>.
\<close>

datatype bridge_error =
    NotConnected
  | TimedOut jsstring nat
  | Disconnected
  | ShuttingDown
  | PeerError jsval
  | TypeError

datatype settlement = Resolved jsval | Rejected bridge_error

text \<open>
  An entry of the pending table.  \<open>resolve\<close> and \<open>reject\<close> settle the promise created by
  one call of \<open>sendCommand\<close>, and \<open>timer\<close> is the handle of that call's timeout; both
  are named by the id that \<open>crypto.randomUUID()\<close> returned in the call.
\<close>

record pending_cmd =
  promise :: jsstring
  timer :: jsstring

record audit_entry =
  audit_timestamp :: jsstring
  action :: jsstring
  params :: "(jsstring \<times> jsval) list"

text \<open>
  The fields of \<open>WebSocketBridge\<close>, followed by the part of the world it acts on:
  \<^item> \<open>readyState\<close> of every socket, and \<open>handlers\<close>, the sockets on which the
    connection handler registered its \<open>message\<close> and \<open>close\<close> listeners;
  \<^item> \<open>sent\<close>: the objects handed to \<open>ws.send(JSON.stringify(...))\<close>, in order;
  \<^item> \<open>closeCalls\<close>: the calls of \<open>ws.close\<close>, with code and reason when given;
  \<^item> \<open>auditLog\<close>: the entries handed to \<open>appendFileSync\<close> (a failing write is swallowed
    by \<open>audit\<close> and changes nothing else);
  \<^item> \<open>timers\<close>: the armed timeouts, each with the \<open>command\<close> and \<open>timeoutMs\<close> its
    callback closes over;
  \<^item> \<open>settled\<close>: the calls of \<open>resolve\<close> and \<open>reject\<close>, in order;
  \<^item> \<open>hooks\<close>: the callbacks invoked, in order.
\<close>

record bridge =
  listening :: bool
  client :: "sock option"
  authToken :: jsstring
  isAuthenticated :: bool
  pending :: "(jsstring \<times> pending_cmd) list"
  allowedOrigins :: "jsstring list"
  onConnectCallbacks :: "nat list"
  onDisconnectCallbacks :: "nat list"
  readyState :: "sock \<Rightarrow> ready_state"
  handlers :: "sock list"
  sent :: "(sock \<times> jsval) list"
  closeCalls :: "(sock \<times> (nat \<times> jsstring) option) list"
  auditLog :: "audit_entry list"
  timers :: "(jsstring \<times> jsstring \<times> nat) list"
  settled :: "(jsstring \<times> settlement) list"
  hooks :: "nat list"

record bridge_options =
  port :: nat
  auditLogDir :: jsstring
  opt_allowedOrigins :: "jsstring list option"

text \<open>\<open>randomBytes(n).toString('hex')\<close>, over a source \<open>rnd\<close> of random bytes.\<close>

definition hexDigit :: "nat \<Rightarrow> 16 word" where
  "hexDigit n = lit ''0123456789abcdef'' ! n"

definition toHex :: "8 word list \<Rightarrow> jsstring" where
  "toHex bs = concat (map (\<lambda>b. [hexDigit (unat b div 16), hexDigit (unat b mod 16)]) bs)"

definition randomBytes :: "(nat \<Rightarrow> 8 word) \<Rightarrow> nat \<Rightarrow> 8 word list" where
  "randomBytes rnd n = map rnd [0..<n]"

text \<open>
  The constructor.  Its creation of the audit directory is a file-system effect outside
  this record.
\<close>

definition new_WebSocketBridge :: "(nat \<Rightarrow> 8 word) \<Rightarrow> bridge_options \<Rightarrow> bridge" where
  "new_WebSocketBridge rnd options = \<lparr>
     listening = False,
     client = None,
     authToken = toHex (randomBytes rnd 32),
     isAuthenticated = False,
     pending = [],
     allowedOrigins = (case opt_allowedOrigins options of Some os \<Rightarrow> os | None \<Rightarrow> []),
     onConnectCallbacks = [],
     onDisconnectCallbacks = [],
     readyState = (\<lambda>_. CLOSED),
     handlers = [],
     sent = [],
     closeCalls = [],
     auditLog = [],
     timers = [],
     settled = [],
     hooks = [] \<rparr>"

definition connected :: "bridge \<Rightarrow> bool" where
  "connected s = (case client s of
       None \<Rightarrow> False
     | Some ws \<Rightarrow> readyState s ws = OPEN \<and> isAuthenticated s)"

definition onConnect :: "nat \<Rightarrow> bridge \<Rightarrow> bridge" where
  "onConnect cb s = s \<lparr> onConnectCallbacks := onConnectCallbacks s @ [cb] \<rparr>"

definition onDisconnect :: "nat \<Rightarrow> bridge \<Rightarrow> bridge" where
  "onDisconnect cb s = s \<lparr> onDisconnectCallbacks := onDisconnectCallbacks s @ [cb] \<rparr>"

subsection \<open>Effects\<close>

definition ws_send :: "sock \<Rightarrow> jsval \<Rightarrow> bridge \<Rightarrow> bridge" where
  "ws_send ws frame s = s \<lparr> sent := sent s @ [(ws, frame)] \<rparr>"

text \<open>\<open>ws.close\<close> starts the closing handshake of an open socket.\<close>

definition ws_close :: "sock \<Rightarrow> (nat \<times> jsstring) option \<Rightarrow> bridge \<Rightarrow> bridge" where
  "ws_close ws args s = s \<lparr>
     closeCalls := closeCalls s @ [(ws, args)],
     readyState := (readyState s)(ws := (if readyState s ws = OPEN then CLOSING else readyState s ws)) \<rparr>"

definition audit :: "jsstring \<Rightarrow> jsstring \<Rightarrow> (jsstring \<times> jsval) list \<Rightarrow> bridge \<Rightarrow> bridge" where
  "audit now act ps s = s \<lparr> auditLog := auditLog s @
     [\<lparr> audit_timestamp = now, action = act, params = sanitizeForLog ps \<rparr>] \<rparr>"

definition clearTimeout :: "jsstring \<Rightarrow> bridge \<Rightarrow> bridge" where
  "clearTimeout t s = s \<lparr> timers := AList.delete t (timers s) \<rparr>"

definition settle :: "jsstring \<Rightarrow> settlement \<Rightarrow> bridge \<Rightarrow> bridge" where
  "settle p out s = s \<lparr> settled := settled s @ [(p, out)] \<rparr>"

definition pending_delete :: "jsstring \<Rightarrow> bridge \<Rightarrow> bridge" where
  "pending_delete k s = s \<lparr> pending := AList.delete k (pending s) \<rparr>"

definition runCallbacks :: "nat list \<Rightarrow> bridge \<Rightarrow> bridge" where
  "runCallbacks cbs s = s \<lparr> hooks := hooks s @ cbs \<rparr>"

text \<open>
  The loop shared by the \<open>close\<close> listener and \<open>stop\<close>: every pending entry is rejected,
  its timer cleared, and the entry deleted.
\<close>

fun rejectAll :: "bridge_error \<Rightarrow> (jsstring \<times> pending_cmd) list \<Rightarrow> bridge \<Rightarrow> bridge" where
  "rejectAll e [] s = s"
| "rejectAll e ((k, p) # ps) s =
     rejectAll e ps
       (pending_delete k (clearTimeout (timer p) (settle (promise p) (Rejected e) s)))"

subsection \<open>Listener and lifecycle\<close>

text \<open>
  The \<open>connection\<close> listener of \<open>start\<close>.  The socket it is given is open.
\<close>

definition on_connection :: "sock \<Rightarrow> bridge \<Rightarrow> bridge" where
  "on_connection ws s0 =
     (let s = s0 \<lparr> readyState := (readyState s0)(ws := OPEN) \<rparr> in
      if (case client s of Some c \<Rightarrow> readyState s c = OPEN | None \<Rightarrow> False)
      then ws_close ws (Some (4001, lit ''Another client is already connected'')) s
      else s \<lparr> client := Some ws, isAuthenticated := False, handlers := handlers s @ [ws] \<rparr>)"

text \<open>The \<open>close\<close> listener of a socket; the socket is closed when it runs.\<close>

definition on_close :: "sock \<Rightarrow> bridge \<Rightarrow> bridge" where
  "on_close ws s0 =
     (let s = s0 \<lparr> readyState := (readyState s0)(ws := CLOSED) \<rparr> in
      if ws \<notin> set (handlers s) then s
      else if client s = Some ws
      then (let s1 = s \<lparr> client := None, isAuthenticated := False \<rparr>;
                s2 = rejectAll Disconnected (pending s1) s1
            in runCallbacks (onDisconnectCallbacks s2) s2)
      else s)"

definition start :: "bridge \<Rightarrow> bridge" where
  "start s = s \<lparr> listening := True \<rparr>"

definition stop :: "bridge \<Rightarrow> bridge" where
  "stop s =
     (let s1 = rejectAll ShuttingDown (pending s) s;
          s2 = (case client s1 of Some c \<Rightarrow> ws_close c None s1 | None \<Rightarrow> s1)
      in s2 \<lparr> listening := False \<rparr>)"

subsection \<open>Dispatch\<close>

text \<open>
  \<open>sendCommand\<close>, with \<open>uuid\<close> the value \<open>crypto.randomUUID()\<close> returns in the call and
  \<open>now\<close> the timestamp of the audit entry.  The result is \<open>Inl\<close> for a promise
  rejected at once and \<open>Inr uuid\<close> for the promise left to be settled later.
\<close>

definition sendCommand ::
  "jsstring \<Rightarrow> jsstring \<Rightarrow> jsstring \<Rightarrow> (jsstring \<times> jsval) list \<Rightarrow> nat \<Rightarrow> bridge
     \<Rightarrow> (bridge_error + jsstring) \<times> bridge" where
  "sendCommand uuid now command ps timeoutMs s =
     (if \<not> connected s then (Inl NotConnected, s)
      else
        (let cmd = JObj [(lit ''id'', JStr uuid), (lit ''type'', JStr (lit ''command'')),
                         (lit ''command'', JStr command), (lit ''params'', JObj ps)];
             s1 = audit now command ps s;
             s2 = s1 \<lparr> timers := AList.update uuid (command, timeoutMs) (timers s1) \<rparr>;
             s3 = s2 \<lparr> pending := AList.update uuid \<lparr> promise = uuid, timer = uuid \<rparr> (pending s2) \<rparr>
         in case client s3 of
              Some c \<Rightarrow> (Inr uuid, ws_send c cmd s3)
            | None \<Rightarrow> (Inl TypeError, s3)))"

text \<open>The timeout callback armed by \<open>sendCommand\<close>; a timer that was cleared never fires.\<close>

definition on_timeout :: "jsstring \<Rightarrow> bridge \<Rightarrow> bridge" where
  "on_timeout t s =
     (case map_of (timers s) t of
        None \<Rightarrow> s
      | Some (command, timeoutMs) \<Rightarrow>
          settle t (Rejected (TimedOut command timeoutMs))
            (pending_delete t (clearTimeout t s)))"

subsection \<open>Incoming frames\<close>

text \<open>
  \<open>this.pending.get(msg.id)\<close>: the keys of the table are strings, so only a string
  finds an entry.
\<close>

fun pending_get :: "bridge \<Rightarrow> jsval \<Rightarrow> pending_cmd option" where
  "pending_get s (JStr k) = map_of (pending s) k"
| "pending_get s _ = None"

fun pending_delete_val :: "jsval \<Rightarrow> bridge \<Rightarrow> bridge" where
  "pending_delete_val (JStr k) s = pending_delete k s"
| "pending_delete_val _ s = s"

text \<open>\<open>msg.error ?? 'Command failed'\<close>\<close>

fun error_or_default :: "jsval \<Rightarrow> jsval" where
  "error_or_default JUndefined = JStr (lit ''Command failed'')"
| "error_or_default JNull = JStr (lit ''Command failed'')"
| "error_or_default v = v"

text \<open>
  \<open>handleMessage\<close>, on the result \<open>parsed\<close> of \<open>JSON.parse(raw)\<close> (\<open>None\<close> when it
  throws) and the timestamp \<open>now\<close> for an audit entry.
\<close>

definition handleMessage :: "jsstring \<Rightarrow> sock \<Rightarrow> jsval option \<Rightarrow> bridge \<Rightarrow> bridge_error + bridge" where
  "handleMessage now ws parsed s =
     (case parsed of
        None \<Rightarrow> Inr s
      | Some msg \<Rightarrow>
          if msg = JNull \<or> msg = JUndefined then Inl TypeError
          else if getProp msg (lit ''type'') = JStr (lit ''auth'') then
            (let valid = (case getProp msg (lit ''token'') of
                            JStr token \<Rightarrow> length token > 0 \<and> timingSafeEqual token (authToken s)
                          | _ \<Rightarrow> False)
             in if valid
                then (let s1 = s \<lparr> isAuthenticated := True \<rparr>;
                          s2 = ws_send ws (JObj [(lit ''type'', JStr (lit ''auth_result'')),
                                 (lit ''success'', JBool True),
                                 (lit ''allowedOrigins'', JArr (map JStr (allowedOrigins s1)))]) s1
                      in Inr (runCallbacks (onConnectCallbacks s2) s2))
                else (let s1 = ws_send ws (JObj [(lit ''type'', JStr (lit ''auth_result'')),
                                 (lit ''success'', JBool False),
                                 (lit ''error'', JStr (lit ''Invalid auth token''))]) s
                      in Inr (audit now (lit ''auth_failed'')
                                [(lit ''extensionId'', getProp msg (lit ''extensionId''))] s1)))
          else if getProp msg (lit ''type'') = JStr (lit ''response'') \<and> truthy (getProp msg (lit ''id'')) then
            (case pending_get s (getProp msg (lit ''id'')) of
               None \<Rightarrow> Inr s
             | Some p \<Rightarrow>
                 (let s1 = clearTimeout (timer p) s;
                      s2 = pending_delete_val (getProp msg (lit ''id'')) s1
                  in if truthy (getProp msg (lit ''success''))
                     then Inr (settle (promise p) (Resolved (getProp msg (lit ''data''))) s2)
                     else Inr (settle (promise p)
                            (Rejected (PeerError (error_or_default (getProp msg (lit ''error''))))) s2)))
          else if getProp msg (lit ''type'') = JStr (lit ''command'')
                  \<and> getProp msg (lit ''command'') = JStr (lit ''ping'') then
            Inr (ws_send ws (JObj [(lit ''id'', getProp msg (lit ''id'')),
                   (lit ''type'', JStr (lit ''response'')), (lit ''success'', JBool True),
                   (lit ''data'', JObj [(lit ''pong'', JBool True)])]) s)
          else Inr s)"

text \<open>The \<open>message\<close> listener: only a socket the connection handler accepted has one.\<close>

definition on_message :: "jsstring \<Rightarrow> sock \<Rightarrow> jsval option \<Rightarrow> bridge \<Rightarrow> bridge_error + bridge" where
  "on_message now ws parsed s =
     (if ws \<in> set (handlers s) then handleMessage now ws parsed s else Inr s)"

subsection \<open>Reading the state\<close>

text \<open>
  A peer is in the state AUTHENTICATED when it is the current client, its socket is open
  and the bridge's flag is set; this is what \<open>connected\<close> tests.
\<close>

definition authenticated_peer :: "bridge \<Rightarrow> sock \<Rightarrow> bool" where
  "authenticated_peer s ws = (client s = Some ws \<and> readyState s ws = OPEN \<and> isAuthenticated s)"

text \<open>
  A bridge for the scenarios: started, allowlist \<open>["localhost"]\<close>, with the peer on
  socket 3 connected and not yet authenticated.
\<close>

definition demo_options :: bridge_options where
  "demo_options = \<lparr> port = 3697, auditLogDir = lit ''.agent-chrome-test'',
     opt_allowedOrigins = Some [lit ''localhost''] \<rparr>"

definition demo_bridge :: bridge where
  "demo_bridge = on_connection 3 (start (new_WebSocketBridge (\<lambda>_. 0) demo_options))"

subsection \<open>Frames\<close>

definition auth_ok_frame :: "bridge \<Rightarrow> jsval" where
  "auth_ok_frame s = JObj [(lit ''type'', JStr (lit ''auth_result'')), (lit ''success'', JBool True),
      (lit ''allowedOrigins'', JArr (map JStr (allowedOrigins s)))]"

definition auth_fail_frame :: jsval where
  "auth_fail_frame = JObj [(lit ''type'', JStr (lit ''auth_result'')), (lit ''success'', JBool False),
      (lit ''error'', JStr (lit ''Invalid auth token''))]"

definition auth_frame :: "jsval \<Rightarrow> jsval \<Rightarrow> jsval" where
  "auth_frame token extensionId = JObj [(lit ''type'', JStr (lit ''auth'')),
      (lit ''token'', token), (lit ''extensionId'', extensionId)]"



definition ping_frame :: "jsval \<Rightarrow> jsval" where
  "ping_frame i = JObj [(lit ''id'', i), (lit ''type'', JStr (lit ''command'')),
      (lit ''command'', JStr (lit ''ping'')), (lit ''params'', JObj [])]"

definition pong_frame :: "jsval \<Rightarrow> jsval" where
  "pong_frame i = JObj [(lit ''id'', i), (lit ''type'', JStr (lit ''response'')),
      (lit ''success'', JBool True), (lit ''data'', JObj [(lit ''pong'', JBool True)])]"

definition is_ping :: "jsval \<Rightarrow> bool" where
  "is_ping msg = (getProp msg (lit ''type'') = JStr (lit ''command'')
     \<and> getProp msg (lit ''command'') = JStr (lit ''ping''))"

definition response_frame :: "jsval \<Rightarrow> jsval \<Rightarrow> jsval \<Rightarrow> jsval" where
  "response_frame i ok d = JObj [(lit ''id'', i), (lit ''type'', JStr (lit ''response'')),
      (lit ''success'', ok), (lit ''data'', d)]"

subsection \<open>Runs of the bridge\<close>

text \<open>
  What can happen to a bridge: a connection arrives, a socket delivers a frame, a socket
  closes, a timeout fires, and the calls \<open>sendCommand\<close> and \<open>stop\<close>.
\<close>

datatype event =
    Connection sock
  | Message jsstring sock "jsval option"
  | Close sock
  | Timeout jsstring
  | SendCommand jsstring jsstring jsstring "(jsstring \<times> jsval) list" nat
  | Stop

fun step :: "event \<Rightarrow> bridge \<Rightarrow> bridge_error + bridge" where
  "step (Connection ws) s = Inr (on_connection ws s)"
| "step (Message now ws parsed) s = on_message now ws parsed s"
| "step (Close ws) s = Inr (on_close ws s)"
| "step (Timeout t) s = Inr (on_timeout t s)"
| "step (SendCommand uuid now command ps timeoutMs) s =
     Inr (snd (sendCommand uuid now command ps timeoutMs s))"
| "step Stop s = Inr (stop s)"

fun run :: "event list \<Rightarrow> bridge \<Rightarrow> bridge_error + bridge" where
  "run [] s = Inr s"
| "run (e # es) s = (case step e s of Inl err \<Rightarrow> Inl err | Inr s' \<Rightarrow> run es s')"

text \<open>The ids of the command frames sent so far, that is, of the commands dispatched.\<close>

definition command_id :: "jsval \<Rightarrow> jsstring list" where
  "command_id frame =
     (if getProp frame (lit ''type'') = JStr (lit ''command'')
      then (case getProp frame (lit ''id'') of JStr k \<Rightarrow> [k] | _ \<Rightarrow> [])
      else [])"

definition dispatched :: "bridge \<Rightarrow> jsstring list" where
  "dispatched s = concat (map (\<lambda>(ws, frame). command_id frame) (sent s))"

text \<open>
  \<open>crypto.randomUUID()\<close> returns an id that was not used before: along a run, the id of
  every \<open>sendCommand\<close> is new.
\<close>

fun fresh_uuids :: "event list \<Rightarrow> bridge \<Rightarrow> bool" where
  "fresh_uuids [] s = True"
| "fresh_uuids (e # es) s =
     ((case e of SendCommand uuid now command ps timeoutMs \<Rightarrow> uuid \<notin> set (dispatched s) | _ \<Rightarrow> True)
      \<and> (case step e s of Inl err \<Rightarrow> True | Inr s' \<Rightarrow> fresh_uuids es s'))"

text \<open>The four ways a dispatched command ends.\<close>

fun terminal_event :: "settlement \<Rightarrow> bool" where
  "terminal_event (Resolved v) = True"
| "terminal_event (Rejected (PeerError e)) = True"
| "terminal_event (Rejected (TimedOut command timeoutMs)) = True"
| "terminal_event (Rejected Disconnected) = True"
| "terminal_event (Rejected ShuttingDown) = True"
| "terminal_event (Rejected NotConnected) = False"
| "terminal_event (Rejected TypeError) = False"

text \<open>
  A dispatched command is in flight while the pending table holds its id, its timer is
  armed and its promise is unsettled; it is terminated when the table and the timers
  no longer hold its id and its promise was settled exactly once, by one of the four
  events.
\<close>

definition in_flight :: "bridge \<Rightarrow> jsstring \<Rightarrow> bool" where
  "in_flight s k = (map_of (pending s) k \<noteq> None \<and> map_of (timers s) k \<noteq> None
     \<and> filter (\<lambda>(p, out). p = k) (settled s) = [])"

definition terminated :: "bridge \<Rightarrow> jsstring \<Rightarrow> bool" where
  "terminated s k = (map_of (pending s) k = None \<and> map_of (timers s) k = None
     \<and> (case filter (\<lambda>(p, out). p = k) (settled s) of
           [(p, out)] \<Rightarrow> terminal_event out
         | _ \<Rightarrow> False))"

text \<open>What a response frame settles its command with.\<close>

definition response_outcome :: "jsval \<Rightarrow> settlement" where
  "response_outcome msg =
     (if truthy (getProp msg (lit ''success''))
      then Resolved (getProp msg (lit ''data''))
      else Rejected (PeerError (error_or_default (getProp msg (lit ''error'')))))"

text \<open>The invariant that ties the pending table, the timers and the settlements.\<close>

definition pending_inv :: "bridge \<Rightarrow> bool" where
  "pending_inv s =
     (distinct (map fst (pending s))
    \<and> distinct (map fst (timers s))
    \<and> set (map fst (timers s)) = set (map fst (pending s))
    \<and> (\<forall>(k, p) \<in> set (pending s). promise p = k \<and> timer p = k)
    \<and> distinct (map fst (settled s))
    \<and> set (map fst (settled s)) \<inter> set (map fst (pending s)) = {}
    \<and> set (dispatched s) = set (map fst (pending s)) \<union> set (map fst (settled s))
    \<and> (\<forall>out \<in> set (map snd (settled s)). terminal_event out))"

text \<open>
  A run: the peer authenticates with the token of the bridge made from zero bytes, two
  commands are dispatched, the first is answered, the second times out and is answered
  too late.  \<open>demo_final\<close> is the state it ends in.
\<close>

definition zero_token :: jsstring where
  "zero_token = replicate 64 48"

definition demo_run :: "event list" where
  "demo_run =
     [Connection 3,
      Message (lit ''t0'') 3 (Some (auth_frame (JStr zero_token) (JStr (lit ''ext1'')))),
      SendCommand (lit ''k1'') (lit ''t1'') (lit ''url'') [] 30000,
      SendCommand (lit ''k2'') (lit ''t2'') (lit ''title'') [] 100,
      Message (lit ''t3'') 3 (Some (response_frame (JStr (lit ''k1'')) (JBool True) (JStr (lit ''https://example.com/test'')))),
      Timeout (lit ''k2''),
      Message (lit ''t4'') 3 (Some (response_frame (JStr (lit ''k2'')) (JBool True) JNull))]"

definition demo_final :: bridge where
  "demo_final = (new_WebSocketBridge (\<lambda>_. 0) demo_options) \<lparr>
        client := Some 3, isAuthenticated := True,
        readyState := (\<lambda>_. CLOSED)(3 := OPEN), handlers := [3],
        sent := [(3, auth_ok_frame demo_bridge),
                 (3, JObj [(lit ''id'', JStr (lit ''k1'')), (lit ''type'', JStr (lit ''command'')),
                         (lit ''command'', JStr (lit ''url'')), (lit ''params'', JObj [])]),
                 (3, JObj [(lit ''id'', JStr (lit ''k2'')), (lit ''type'', JStr (lit ''command'')),
                         (lit ''command'', JStr (lit ''title'')), (lit ''params'', JObj [])])],
        auditLog := [\<lparr> audit_timestamp = lit ''t1'', action = lit ''url'', params = [] \<rparr>,
                     \<lparr> audit_timestamp = lit ''t2'', action = lit ''title'', params = [] \<rparr>],
        settled := [(lit ''k1'', Resolved (JStr (lit ''https://example.com/test''))),
                    (lit ''k2'', Rejected (TimedOut (lit ''title'') 100))] \<rparr>"

text \<open>
  The same run up to its first dispatch, with the state it ends in, and the response
  that answers the command.
\<close>

definition demo_run_pending :: "event list" where
  "demo_run_pending =
     [Connection 3,
      Message (lit ''t0'') 3 (Some (auth_frame (JStr zero_token) (JStr (lit ''ext1'')))),
      SendCommand (lit ''k1'') (lit ''t1'') (lit ''url'') [] 30000]"

definition demo_pending :: bridge where
  "demo_pending = (new_WebSocketBridge (\<lambda>_. 0) demo_options) \<lparr>
        client := Some 3, isAuthenticated := True,
        pending := [(lit ''k1'', \<lparr> promise = lit ''k1'', timer = lit ''k1'' \<rparr>)],
        readyState := (\<lambda>_. CLOSED)(3 := OPEN), handlers := [3],
        sent := [(3, auth_ok_frame demo_bridge),
                 (3, JObj [(lit ''id'', JStr (lit ''k1'')), (lit ''type'', JStr (lit ''command'')),
                         (lit ''command'', JStr (lit ''url'')), (lit ''params'', JObj [])])],
        auditLog := [\<lparr> audit_timestamp = lit ''t1'', action = lit ''url'', params = [] \<rparr>],
        timers := [(lit ''k1'', lit ''url'', 30000)] \<rparr>"

definition late_response :: jsval where
  "late_response = response_frame (JStr (lit ''k1'')) (JBool True) (JStr (lit ''https://example.com/test''))"

section \<open>Extension service worker (service-worker.ts)\<close>

text \<open>
  What the platform provides: \<open>new URL(x)\<close> (\<open>None\<close> when it throws), of which the
  program reads \<open>protocol\<close> and \<open>hostname\<close>; the conversion to a string of a value that
  is not one; and the message of the \<open>TypeError\<close> of a failed property read.
\<close>

record url =
  protocol :: jsstring
  hostname :: jsstring

record platform =
  newURL :: "jsval \<Rightarrow> url option"
  toString :: "jsval \<Rightarrow> jsstring"
  typeErrorMessage :: jsstring

text \<open>A value inside a template literal: a string stands for itself.\<close>

definition templateString :: "platform \<Rightarrow> jsval \<Rightarrow> jsstring" where
  "templateString pf v = (case v of JStr t \<Rightarrow> t | _ \<Rightarrow> toString pf v)"

definition DEFAULT_PORT :: nat where "DEFAULT_PORT = 3695"
definition KEEPALIVE_INTERVAL_MS :: nat where "KEEPALIVE_INTERVAL_MS = 20000"
definition RECONNECT_BASE_MS :: nat where "RECONNECT_BASE_MS = 1000"
definition RECONNECT_MAX_MS :: nat where "RECONNECT_MAX_MS = 30000"
definition MAX_RECONNECT_ATTEMPTS :: nat where "MAX_RECONNECT_ATTEMPTS = 50"

datatype badge = BadgeConnected | BadgeDisconnected | BadgeError

text \<open>
  The module variables, followed by the effects: \<open>ext_sent\<close>, the objects handed to
  \<open>ws.send(JSON.stringify(...))\<close>; \<open>navigations\<close>, the calls of \<open>chrome.tabs.update\<close>;
  \<open>badges\<close>, the calls of \<open>updateBadge\<close>.  \<open>ext_ws\<close> is the \<open>readyState\<close> of the socket
  in \<open>ws\<close>, \<open>None\<close> for \<open>null\<close>.  \<open>reconnectTimer\<close> and \<open>keepaliveTimer\<close> hold the
  delay of the armed timer, \<open>None\<close> when none is armed.
\<close>

record extension =
  ext_ws :: "ready_state option"
  ext_authToken :: "jsstring option"
  ext_isAuthenticated :: jsval
  reconnectAttempts :: nat
  ext_allowedOrigins :: "jsval list"
  keepaliveTimer :: "nat option"
  reconnectTimer :: "nat option"
  ext_port :: nat
  ext_sent :: "jsval list"
  navigations :: "(jsval \<times> jsval) list"
  badges :: "badge list"

definition new_extension :: extension where
  "new_extension = \<lparr>
     ext_ws = None, ext_authToken = None, ext_isAuthenticated = JBool False,
     reconnectAttempts = 0,
     ext_allowedOrigins = map (JStr \<circ> lit)
       [''http://localhost'', ''https://localhost'', ''http://127.0.0.1'', ''https://127.0.0.1''],
     keepaliveTimer = None, reconnectTimer = None, ext_port = DEFAULT_PORT,
     ext_sent = [], navigations = [], badges = [] \<rparr>"

subsection \<open>URL allowlist\<close>

fun startsWith :: "jsstring \<Rightarrow> jsstring \<Rightarrow> bool" where
  "startsWith s [] = True"
| "startsWith [] (c # cs) = False"
| "startsWith (x # xs) (c # cs) = (x = c \<and> startsWith xs cs)"

fun str_includes :: "jsstring \<Rightarrow> jsstring \<Rightarrow> bool" where
  "str_includes [] t = (t = [])"
| "str_includes (x # xs) t = (startsWith (x # xs) t \<or> str_includes xs t)"

definition endsWith :: "jsstring \<Rightarrow> jsstring \<Rightarrow> bool" where
  "endsWith s t = startsWith (rev s) (rev t)"

text \<open>
  The callback of \<open>allowedOrigins.some\<close> on one entry: \<open>None\<close> when it throws.  An
  entry that is neither a string nor an array has no \<open>includes\<close>; an array has one, which
  looks for an element.
\<close>

definition origin_matches :: "platform \<Rightarrow> url \<Rightarrow> jsval \<Rightarrow> bool option" where
  "origin_matches pf parsed origin =
     (let has = (case origin of
                   JStr t \<Rightarrow> Some (str_includes t (lit ''://''))
                 | JArr vs \<Rightarrow> Some (JStr (lit ''://'') \<in> set vs)
                 | _ \<Rightarrow> None)
      in case has of
           None \<Rightarrow> None
         | Some h \<Rightarrow>
             (case newURL pf (if h then origin else JStr (lit ''https://'' @ templateString pf origin)) of
                None \<Rightarrow> None
              | Some parsedOrigin \<Rightarrow>
                  Some (hostname parsed = hostname parsedOrigin
                        \<or> endsWith (hostname parsed) (lit ''.'' @ hostname parsedOrigin))))"

fun some_origin :: "platform \<Rightarrow> url \<Rightarrow> jsval list \<Rightarrow> bool option" where
  "some_origin pf parsed [] = Some False"
| "some_origin pf parsed (origin # rest) =
     (case origin_matches pf parsed origin of
        None \<Rightarrow> None
      | Some True \<Rightarrow> Some True
      | Some False \<Rightarrow> some_origin pf parsed rest)"

definition isUrlAllowed :: "platform \<Rightarrow> extension \<Rightarrow> jsval \<Rightarrow> bool" where
  "isUrlAllowed pf s u =
     (case newURL pf u of
        None \<Rightarrow> False
      | Some parsed \<Rightarrow>
          if protocol parsed = lit ''file:'' then True
          else (case some_origin pf parsed (ext_allowedOrigins s) of
                  None \<Rightarrow> False
                | Some b \<Rightarrow> b))"

subsection \<open>Connection and reconnection\<close>

definition updateBadge :: "badge \<Rightarrow> extension \<Rightarrow> extension" where
  "updateBadge b s = s \<lparr> badges := badges s @ [b] \<rparr>"

definition stopKeepalive :: "extension \<Rightarrow> extension" where
  "stopKeepalive s = (if keepaliveTimer s \<noteq> None then s \<lparr> keepaliveTimer := None \<rparr> else s)"

definition startKeepalive :: "extension \<Rightarrow> extension" where
  "startKeepalive s = (stopKeepalive s) \<lparr> keepaliveTimer := Some KEEPALIVE_INTERVAL_MS \<rparr>"

definition scheduleReconnect :: "extension \<Rightarrow> extension" where
  "scheduleReconnect s =
     (if reconnectAttempts s \<ge> MAX_RECONNECT_ATTEMPTS then updateBadge BadgeError s
      else
        (let delay = min (RECONNECT_BASE_MS * 2 ^ reconnectAttempts s) RECONNECT_MAX_MS
         in s \<lparr> reconnectAttempts := reconnectAttempts s + 1, reconnectTimer := Some delay \<rparr>))"

text \<open>\<open>connect\<close>; \<open>constructed\<close> tells whether \<open>new WebSocket(wsUrl)\<close> returns.\<close>

definition connect :: "bool \<Rightarrow> extension \<Rightarrow> extension" where
  "connect constructed s =
     (if ext_ws s = Some OPEN \<or> ext_ws s = Some CONNECTING then s
      else if constructed then s \<lparr> ext_ws := Some CONNECTING \<rparr>
      else scheduleReconnect s)"

text \<open>The reconnect timer fires: it is no longer armed, and \<open>connect\<close> runs.\<close>

definition on_reconnectTimer :: "bool \<Rightarrow> extension \<Rightarrow> extension" where
  "on_reconnectTimer constructed s =
     (case reconnectTimer s of
        None \<Rightarrow> s
      | Some d \<Rightarrow> connect constructed (s \<lparr> reconnectTimer := None \<rparr>))"

definition ws_onopen :: "jsstring \<Rightarrow> extension \<Rightarrow> extension" where
  "ws_onopen extensionId s0 =
     (let s = s0 \<lparr> ext_ws := Some OPEN, reconnectAttempts := 0 \<rparr>;
          s1 = (case ext_authToken s of
                  None \<Rightarrow> s
                | Some token \<Rightarrow>
                    if token = [] then s
                    else s \<lparr> ext_sent := ext_sent s @
                      [JObj [(lit ''type'', JStr (lit ''auth'')), (lit ''token'', JStr token),
                             (lit ''extensionId'', JStr extensionId)]] \<rparr>)
      in updateBadge BadgeConnected (startKeepalive s1))"

definition ws_onclose :: "extension \<Rightarrow> extension" where
  "ws_onclose s0 =
     (let s = s0 \<lparr> ext_ws := Some CLOSED, ext_isAuthenticated := JBool False \<rparr>
      in scheduleReconnect (updateBadge BadgeDisconnected (stopKeepalive s)))"

subsection \<open>Commands\<close>

definition sendResponse :: "jsval \<Rightarrow> bool \<Rightarrow> jsval \<Rightarrow> jsstring option \<Rightarrow> extension \<Rightarrow> extension" where
  "sendResponse i success data err s =
     (if ext_ws s \<noteq> Some OPEN then s
      else s \<lparr> ext_sent := ext_sent s @
        [JObj ([(lit ''id'', i), (lit ''type'', JStr (lit ''response'')), (lit ''success'', JBool success)]
               @ (if data \<noteq> JUndefined then [(lit ''data'', data)] else [])
               @ (case err of
                    None \<Rightarrow> []
                  | Some e \<Rightarrow> if e \<noteq> [] then [(lit ''error'', JStr e)] else []))] \<rparr>)"

text \<open>
  What the browser answers while one command runs: the id of the active tab of the
  current window, if any; whether \<open>chrome.tabs.update\<close> fails, and with which message;
  whether the tab reports \<open>complete\<close> within 30 seconds; and \<open>Date.now()\<close>.
\<close>

record browser =
  activeTab :: "nat option"
  updateError :: "jsstring option"
  tabLoads :: bool
  dateNow :: int

text \<open>The cases of \<open>executeCommand\<close> that only call the chrome APIs or the content script.\<close>

definition chrome_commands :: "jsstring list" where
  "chrome_commands = map lit [''screenshot'', ''evaluate'', ''url'', ''title'',
     ''network_capture_start'', ''network_capture_stop'', ''click'', ''type'', ''select'',
     ''hover'', ''scroll'', ''key'', ''wait'', ''query'', ''query_all'', ''text'', ''html'']"

text \<open>
  \<open>executeCommand\<close>: \<open>Inl\<close> is the message of the error it throws.  The cases of
  \<open>chrome_commands\<close> are the parameter \<open>others\<close>, applied to the command, the tab id and
  the state.
\<close>

definition executeCommand ::
  "platform \<Rightarrow> browser \<Rightarrow> (jsval \<Rightarrow> jsval \<Rightarrow> extension \<Rightarrow> (jsstring + jsval) \<times> extension)
     \<Rightarrow> jsval \<Rightarrow> extension \<Rightarrow> (jsstring + jsval) \<times> extension" where
  "executeCommand pf br others cmd s =
     (let given = getProp cmd (lit ''tabId'');
          tab = (if given \<noteq> JUndefined \<and> given \<noteq> JNull then Some given
                 else (case activeTab br of
                         None \<Rightarrow> None
                       | Some n \<Rightarrow> if n = 0 then None else Some (JNum (of_nat n))))
      in case tab of
           None \<Rightarrow> (Inl (lit ''No active tab found''), s)
         | Some tabId \<Rightarrow>
             if getProp cmd (lit ''command'') = JStr (lit ''ping'') then
               (Inr (JObj [(lit ''pong'', JBool True), (lit ''timestamp'', JNum (of_int (dateNow br)))]), s)
             else if getProp cmd (lit ''command'') = JStr (lit ''navigate'') then
               (let ps = getProp cmd (lit ''params'') in
                if ps = JUndefined \<or> ps = JNull then (Inl (typeErrorMessage pf), s)
                else
                  (let u = getProp ps (lit ''url'') in
                   if \<not> isUrlAllowed pf s u then
                     (Inl (lit ''URL not in allowlist: '' @ templateString pf u
                           @ lit ''. Add the domain to your server config.''), s)
                   else
                     (let s1 = s \<lparr> navigations := navigations s @ [(tabId, u)] \<rparr> in
                      case updateError br of
                        Some e \<Rightarrow> (Inl e, s1)
                      | None \<Rightarrow>
                          if tabLoads br then (Inr (JObj [(lit ''url'', u)]), s1)
                          else (Inl (lit ''Page load timeout''), s1))))
             else if (case getProp cmd (lit ''command'') of
                        JStr c \<Rightarrow> c \<in> set chrome_commands
                      | _ \<Rightarrow> False) then
               others cmd tabId s
             else (Inl (lit ''Unknown command: '' @ templateString pf (getProp cmd (lit ''command''))), s))"

text \<open>
  The elements a spread \<open>[...x]\<close> takes from \<open>x\<close>: those of an array, the code points of
  a string; \<open>None\<close> when \<open>x\<close> is not iterable.
\<close>

fun codePoints :: "jsstring \<Rightarrow> jsstring list" where
  "codePoints (hi # lo # rest) =
     (if 0xD800 \<le> hi \<and> hi \<le> 0xDBFF \<and> 0xDC00 \<le> lo \<and> lo \<le> 0xDFFF
      then [hi, lo] # codePoints rest
      else [hi] # codePoints (lo # rest))"
| "codePoints [c] = [ [c] ]"
| "codePoints [] = []"

fun spread :: "jsval \<Rightarrow> jsval list option" where
  "spread (JArr vs) = Some vs"
| "spread (JStr t) = Some (map JStr (codePoints t))"
| "spread _ = None"

text \<open>
  \<open>handleMessage\<close> of the service worker, on the result \<open>parsed\<close> of \<open>JSON.parse(raw)\<close>.
  The first component tells whether the promise it returns is rejected (by a
  \<open>TypeError\<close>).  A command runs to its response without another event in between.
\<close>

definition ext_handleMessage ::
  "platform \<Rightarrow> browser \<Rightarrow> (jsval \<Rightarrow> jsval \<Rightarrow> extension \<Rightarrow> (jsstring + jsval) \<times> extension)
     \<Rightarrow> jsval option \<Rightarrow> extension \<Rightarrow> bool \<times> extension" where
  "ext_handleMessage pf br others parsed s =
     (case parsed of
        None \<Rightarrow> (False, s)
      | Some msg \<Rightarrow>
          if msg = JNull \<or> msg = JUndefined then (True, s)
          else if getProp msg (lit ''type'') = JStr (lit ''auth_result'') then
            (let s1 = s \<lparr> ext_isAuthenticated := getProp msg (lit ''success'') \<rparr> in
             if truthy (getProp msg (lit ''success'')) then
               (if truthy (getProp msg (lit ''allowedOrigins'')) then
                  (case spread (getProp msg (lit ''allowedOrigins'')) of
                     None \<Rightarrow> (True, s1)
                   | Some vs \<Rightarrow> (False, updateBadge BadgeConnected
                       (s1 \<lparr> ext_allowedOrigins := ext_allowedOrigins s1 @ vs \<rparr>)))
                else (False, updateBadge BadgeConnected s1))
             else (False, updateBadge BadgeError s1))
          else if \<not> truthy (ext_isAuthenticated s)
                  \<and> (case ext_authToken s of None \<Rightarrow> False | Some t \<Rightarrow> t \<noteq> []) then
            (False, sendResponse (getProp msg (lit ''id'')) False JUndefined (Some (lit ''Not authenticated'')) s)
          else if getProp msg (lit ''type'') \<noteq> JStr (lit ''command'') then (False, s)
          else
            (case executeCommand pf br others msg s of
               (Inr result, s1) \<Rightarrow> (False, sendResponse (getProp msg (lit ''id'')) True result None s1)
             | (Inl thrown, s1) \<Rightarrow>
                 (False, sendResponse (getProp msg (lit ''id'')) False JUndefined (Some thrown) s1)))"

text \<open>
  The \<open>set_config\<close> message of the popup, once the configuration is stored:
  \<open>ws?.close()\<close> starts closing a socket that is connecting or open, the counter is
  reset and \<open>connect\<close> runs.  \<open>ext_ws\<close> then follows the socket \<open>connect\<close> creates.
\<close>

definition set_config :: "bool \<Rightarrow> jsstring \<Rightarrow> nat \<Rightarrow> extension \<Rightarrow> extension" where
  "set_config constructed token serverPort s0 =
     (let s = s0 \<lparr> ext_authToken := Some token, ext_port := serverPort \<rparr>;
          s1 = (case ext_ws s of
                  Some OPEN \<Rightarrow> s \<lparr> ext_ws := Some CLOSING \<rparr>
                | Some CONNECTING \<Rightarrow> s \<lparr> ext_ws := Some CLOSING \<rparr>
                | _ \<Rightarrow> s)
      in connect constructed (s1 \<lparr> reconnectAttempts := 0 \<rparr>))"

subsection \<open>Scenario values\<close>

definition command_frame :: "jsstring \<Rightarrow> jsstring \<Rightarrow> (jsstring \<times> jsval) list \<Rightarrow> jsval" where
  "command_frame uuid command ps = JObj [(lit ''id'', JStr uuid), (lit ''type'', JStr (lit ''command'')),
      (lit ''command'', JStr command), (lit ''params'', JObj ps)]"

definition failure_response :: "jsstring \<Rightarrow> jsstring \<Rightarrow> jsval" where
  "failure_response uuid e = JObj [(lit ''id'', JStr uuid), (lit ''type'', JStr (lit ''response'')),
      (lit ''success'', JBool False), (lit ''error'', JStr e)]"

definition not_in_allowlist :: "platform \<Rightarrow> jsval \<Rightarrow> jsstring" where
  "not_in_allowlist pf u = lit ''URL not in allowlist: '' @ templateString pf u
      @ lit ''. Add the domain to your server config.''"

text \<open>
  A platform that knows the URLs of the scenario, and an extension that is connected
  and authenticated with the allowlist its seeds and \<open>["localhost"]\<close> make.
\<close>

definition demo_platform :: platform where
  "demo_platform = \<lparr>
     newURL = (\<lambda>v.
        if v = JStr (lit ''https://evil.example/'')
          then Some \<lparr> protocol = lit ''https:'', hostname = lit ''evil.example'' \<rparr>
        else if v = JStr (lit ''http://localhost'')
          then Some \<lparr> protocol = lit ''http:'', hostname = lit ''localhost'' \<rparr>
        else if v = JStr (lit ''https://localhost'')
          then Some \<lparr> protocol = lit ''https:'', hostname = lit ''localhost'' \<rparr>
        else if v = JStr (lit ''http://127.0.0.1'')
          then Some \<lparr> protocol = lit ''http:'', hostname = lit ''127.0.0.1'' \<rparr>
        else if v = JStr (lit ''https://127.0.0.1'')
          then Some \<lparr> protocol = lit ''https:'', hostname = lit ''127.0.0.1'' \<rparr>
        else None),
     toString = (\<lambda>v. lit ''undefined''),
     typeErrorMessage = lit ''Cannot read properties of undefined'' \<rparr>"

definition demo_extension :: extension where
  "demo_extension = new_extension \<lparr>
     ext_ws := Some OPEN, ext_authToken := Some zero_token, ext_isAuthenticated := JBool True,
     ext_allowedOrigins := ext_allowedOrigins new_extension @ [JStr (lit ''localhost'')] \<rparr>"

definition demo_browser :: browser where
  "demo_browser = \<lparr> activeTab = Some 7, updateError = None, tabLoads = True, dateNow = 0 \<rparr>"

definition evil_params :: "(jsstring \<times> jsval) list" where
  "evil_params = [(lit ''url'', JStr (lit ''https://evil.example/''))]"

text \<open>The bridge of the scenarios once its peer has authenticated.\<close>

definition demo_authenticated :: bridge where
  "demo_authenticated = demo_bridge \<lparr> isAuthenticated := True,
     sent := [(3, auth_ok_frame demo_bridge)] \<rparr>"

text \<open>
  For the scenarios: an extension that has counted three failed attempts, one that has
  counted five, one that has counted fifty; no chrome command; a clock.
\<close>

definition three_attempts :: extension where
  "three_attempts = new_extension \<lparr> reconnectAttempts := 3 \<rparr>"

definition five_attempts :: extension where
  "five_attempts = new_extension \<lparr> reconnectAttempts := 5 \<rparr>"

definition fifty_attempts :: extension where
  "fifty_attempts = new_extension \<lparr> reconnectAttempts := 50 \<rparr>"

definition no_others :: "jsval \<Rightarrow> jsval \<Rightarrow> extension \<Rightarrow> (jsstring + jsval) \<times> extension" where
  "no_others cmd tabId x = (Inr JNull, x)"

definition demo_toISO :: "int \<Rightarrow> jsstring" where
  "demo_toISO t = lit ''2026''"

definition auth_result_ok :: jsval where
  "auth_result_ok = JObj [(lit ''type'', JStr (lit ''auth_result'')), (lit ''success'', JBool True),
      (lit ''allowedOrigins'', JArr [JStr (lit ''localhost'')])]"

section \<open>Baseline store (visual/store.ts)\<close>

type_synonym bytes = "8 word list"

text \<open>
  The file system the store acts on: the files by path, and the calls made to
  \<open>node:fs\<close>, in order.  \<open>path.join\<close> is the parameter \<open>join\<close>.
\<close>

datatype fs_call =
    MkdirSync jsstring
  | WriteFileSync jsstring bytes
  | ExistsSync jsstring
  | ReadFileSync jsstring

record fsys =
  files :: "(jsstring \<times> bytes) list"
  fs_calls :: "fs_call list"

datatype store_error =
    InvalidName jsstring
  | NoSuchFile jsstring

definition mkdirSync :: "jsstring \<Rightarrow> fsys \<Rightarrow> fsys" where
  "mkdirSync path fs = fs \<lparr> fs_calls := fs_calls fs @ [MkdirSync path] \<rparr>"

definition writeFileSync :: "jsstring \<Rightarrow> bytes \<Rightarrow> fsys \<Rightarrow> fsys" where
  "writeFileSync path content fs =
     fs \<lparr> files := AList.update path content (files fs),
          fs_calls := fs_calls fs @ [WriteFileSync path content] \<rparr>"

definition existsSync :: "jsstring \<Rightarrow> fsys \<Rightarrow> bool \<times> fsys" where
  "existsSync path fs =
     (map_of (files fs) path \<noteq> None, fs \<lparr> fs_calls := fs_calls fs @ [ExistsSync path] \<rparr>)"

definition readFileSync :: "jsstring \<Rightarrow> fsys \<Rightarrow> (store_error + bytes) \<times> fsys" where
  "readFileSync path fs =
     ((case map_of (files fs) path of None \<Rightarrow> Inl (NoSuchFile path) | Some content \<Rightarrow> Inr content),
      fs \<lparr> fs_calls := fs_calls fs @ [ReadFileSync path] \<rparr>)"

definition backslash :: jsstring where
  "backslash = [0x5C]"

text \<open>
  \<open>validateName\<close> throws "Invalid baseline name: "<name>". Must not contain path
  separators.", which is \<open>InvalidName name\<close>.
\<close>

definition validateName :: "jsstring \<Rightarrow> store_error option" where
  "validateName nm =
     (if str_includes nm (lit ''..'') \<or> str_includes nm (lit ''/'') \<or> str_includes nm backslash
      then Some (InvalidName nm) else None)"

definition new_BaselineStore :: "(jsstring list \<Rightarrow> jsstring) \<Rightarrow> jsstring \<Rightarrow> fsys \<Rightarrow> fsys" where
  "new_BaselineStore join baseDir fs = mkdirSync (join [baseDir, lit ''diffs'']) (mkdirSync baseDir fs)"

definition save ::
  "(jsstring list \<Rightarrow> jsstring) \<Rightarrow> jsstring \<Rightarrow> jsstring \<Rightarrow> bytes \<Rightarrow> fsys \<Rightarrow> (store_error + jsstring) \<times> fsys" where
  "save join baseDir nm pngBuffer fs =
     (case validateName nm of
        Some e \<Rightarrow> (Inl e, fs)
      | None \<Rightarrow>
          (let filePath = join [baseDir, nm @ lit ''.png'']
           in (Inr filePath, writeFileSync filePath pngBuffer fs)))"

definition saveDiff ::
  "(jsstring list \<Rightarrow> jsstring) \<Rightarrow> jsstring \<Rightarrow> jsstring \<Rightarrow> bytes \<Rightarrow> fsys \<Rightarrow> (store_error + jsstring) \<times> fsys" where
  "saveDiff join baseDir nm pngBuffer fs =
     (case validateName nm of
        Some e \<Rightarrow> (Inl e, fs)
      | None \<Rightarrow>
          (let filePath = join [baseDir, lit ''diffs'', nm @ lit ''.diff.png'']
           in (Inr filePath, writeFileSync filePath pngBuffer fs)))"

definition load ::
  "(jsstring list \<Rightarrow> jsstring) \<Rightarrow> jsstring \<Rightarrow> jsstring \<Rightarrow> fsys \<Rightarrow> (store_error + bytes option) \<times> fsys" where
  "load join baseDir nm fs =
     (case validateName nm of
        Some e \<Rightarrow> (Inl e, fs)
      | None \<Rightarrow>
          (let filePath = join [baseDir, nm @ lit ''.png''];
               (present, fs1) = existsSync filePath fs
           in if \<not> present then (Inr None, fs1)
              else (case readFileSync filePath fs1 of
                      (Inl e, fs2) \<Rightarrow> (Inl e, fs2)
                    | (Inr content, fs2) \<Rightarrow> (Inr (Some content), fs2))))"

definition exists_baseline ::
  "(jsstring list \<Rightarrow> jsstring) \<Rightarrow> jsstring \<Rightarrow> jsstring \<Rightarrow> fsys \<Rightarrow> (store_error + bool) \<times> fsys" where
  "exists_baseline join baseDir nm fs =
     (case validateName nm of
        Some e \<Rightarrow> (Inl e, fs)
      | None \<Rightarrow>
          (let (present, fs1) = existsSync (join [baseDir, nm @ lit ''.png'']) fs
           in (Inr present, fs1)))"

text \<open>A \<open>join\<close> and a file system for the scenarios: the baseline "home" is stored.\<close>

definition demo_join :: "jsstring list \<Rightarrow> jsstring" where
  "demo_join parts = concat (map (\<lambda>p. lit ''/'' @ p) parts)"

definition demo_fs :: fsys where
  "demo_fs = \<lparr> files = [(lit ''/baselines/home.png'', [1])], fs_calls = [] \<rparr>"

section \<open>Image comparator (visual/compare.ts)\<close>

text \<open>
  A JavaScript number that is the result of a division: a finite double, held as the real
  it denotes, \<open>NaN\<close> or \<open>Infinity\<close>.  The pixel counts of a result are kept as integers;
  the arithmetic on them goes through the doubles that hold them (\<open>js_number\<close> below).
\<close>

datatype number = Num real | NaN | Infinity

record png =
  png_width :: nat
  png_height :: nat
  png_data :: bytes

text \<open>
  The libraries the server calls: \<open>PNG.sync.read\<close> (\<open>None\<close> when it throws),
  \<open>PNG.sync.write\<close>, \<open>pixelmatch\<close> (the number of differing pixels and the diff image it
  writes), base64 coding of buffers, \<open>Buffer.from(x, 'base64')\<close> on any value (\<open>None\<close>
  when it throws), \<open>path.join\<close>, and the string of a number of magnitude \<open>10^21\<close> or
  more.
\<close>

record node =
  png_read :: "bytes \<Rightarrow> png option"
  png_write :: "png \<Rightarrow> bytes"
  pixelmatch :: "bytes \<Rightarrow> bytes \<Rightarrow> nat \<Rightarrow> nat \<Rightarrow> real \<Rightarrow> nat \<times> bytes"
  toBase64 :: "bytes \<Rightarrow> jsstring"
  bufferFrom :: "jsval \<Rightarrow> bytes option"
  path_join :: "jsstring list \<Rightarrow> jsstring"
  bigNumberString :: "real \<Rightarrow> jsstring"

record compare_result =
  match :: bool
  diffPixels :: int
  totalPixels :: nat
  diffPercentage :: number
  diffImageBase64 :: "jsstring option"

datatype tool_error =
    Bridge bridge_error
  | Store store_error
  | InvalidPng
  | BadBuffer
  | TypeErr

text \<open>
  The arithmetic of JavaScript numbers, which are IEEE 754 doubles, on the non-negative
  values the comparator computes with.  A finite double is held as the real it denotes.
  \<open>round_double x\<close> is the double nearest to a non-negative real \<open>x\<close>, ties to the even
  significand: the significand has 53 bits, the exponent of the last bit is at least
  \<open>-1074\<close>, and a result of \<open>2^1024\<close> or more is \<open>Infinity\<close>.  \<open>double_exponent x\<close> is
  the integer \<open>e\<close> with \<open>2^e \<le> x < 2^(e+1)\<close>, found by halving or doubling.
\<close>

function exponent_up :: "real \<Rightarrow> nat \<Rightarrow> nat" where
  "exponent_up x u = (if 2 \<le> x then exponent_up (x / 2) (u + 1) else u)"
  by pat_completeness auto
termination
proof (relation "measure (\<lambda>(x, u). nat \<lfloor>x\<rfloor>)")
  show "wf (measure (\<lambda>(x, u). nat \<lfloor>x\<rfloor>))" by simp
next
  fix x :: real and u :: nat
  assume "2 \<le> x"
  then have "\<lfloor>x / 2\<rfloor> < \<lfloor>x\<rfloor>" by linarith
  moreover have "0 < \<lfloor>x\<rfloor>" using \<open>2 \<le> x\<close> by linarith
  ultimately show "((x / 2, u + 1), (x, u)) \<in> measure (\<lambda>(x, u). nat \<lfloor>x\<rfloor>)"
    by simp
qed

function exponent_down :: "real \<Rightarrow> nat \<Rightarrow> nat" where
  "exponent_down x d = (if 0 < x \<and> x < 1 then exponent_down (2 * x) (d + 1) else d)"
  by pat_completeness auto
termination
proof (relation "measure (\<lambda>(x, d). nat \<lfloor>1 / x\<rfloor>)")
  show "wf (measure (\<lambda>(x, d). nat \<lfloor>1 / x\<rfloor>))" by simp
next
  fix x :: real and d :: nat
  assume a: "0 < x \<and> x < 1"
  define y where "y = 1 / x"
  have y: "1 < y" using a by (simp add: y_def)
  then have pos: "1 \<le> \<lfloor>y\<rfloor>" by (simp add: le_floor_iff)
  have "of_int \<lfloor>y / 2\<rfloor> \<le> y / 2" by (rule of_int_floor_le)
  moreover have "y < of_int \<lfloor>y\<rfloor> + 1" by linarith
  moreover have "(1::real) \<le> of_int \<lfloor>y\<rfloor>" using pos by linarith
  ultimately have "(of_int \<lfloor>y / 2\<rfloor> :: real) < of_int \<lfloor>y\<rfloor>" by linarith
  then have "\<lfloor>y / 2\<rfloor> < \<lfloor>y\<rfloor>" by linarith
  moreover have "1 / (2 * x) = y / 2" by (simp add: y_def)
  ultimately have "\<lfloor>1 / x / 2\<rfloor> < \<lfloor>1 / x\<rfloor>" "0 < \<lfloor>1 / x\<rfloor>"
    using pos by (simp_all add: y_def)
  then show "((2 * x, d + 1), (x, d)) \<in> measure (\<lambda>(x, d). nat \<lfloor>1 / x\<rfloor>)"
    by (simp add: field_simps)
qed

declare exponent_up.simps [simp del]
declare exponent_down.simps [simp del]

definition double_exponent :: "real \<Rightarrow> int" where
  "double_exponent x = (if x < 1 then - int (exponent_down x 0) else int (exponent_up x 0))"

definition scale2 :: "real \<Rightarrow> int \<Rightarrow> real" where
  "scale2 x q = (if q < 0 then x / 2 ^ nat (- q) else x * 2 ^ nat q)"

definition round_half_even :: "real \<Rightarrow> int" where
  "round_half_even y =
     (let f = \<lfloor>y\<rfloor>; r = y - of_int f
      in if r < 1 / 2 then f else if 1 / 2 < r then f + 1 else if even f then f else f + 1)"

definition round_double :: "real \<Rightarrow> number" where
  "round_double x =
     (if x = 0 then Num 0
      else
        (let q = max (double_exponent x) (- 1022) - 52;
             m = round_half_even (scale2 x (- q));
             v = scale2 (of_int m) q
         in if 2 ^ 1024 \<le> v then Infinity else Num v))"


text \<open>
  \<open>js_number n\<close> is the number that holds a count; \<open>js_divide\<close> and \<open>js_times\<close> are \<open>/\<close>
  and \<open>*\<close>, each rounding its exact result once.
\<close>

definition js_number :: "nat \<Rightarrow> number" where
  "js_number n = round_double (real n)"

fun js_divide :: "number \<Rightarrow> number \<Rightarrow> number" where
  "js_divide (Num x) (Num y) =
     (if y = 0 then (if x = 0 then NaN else Infinity) else round_double (x / y))"
| "js_divide (Num x) Infinity = Num 0"
| "js_divide Infinity (Num y) = Infinity"
| "js_divide Infinity Infinity = NaN"
| "js_divide NaN b = NaN"
| "js_divide a NaN = NaN"

fun js_times :: "number \<Rightarrow> number \<Rightarrow> number" where
  "js_times (Num x) (Num y) = round_double (x * y)"
| "js_times (Num x) Infinity = (if x = 0 then NaN else Infinity)"
| "js_times Infinity (Num y) = (if y = 0 then NaN else Infinity)"
| "js_times Infinity Infinity = Infinity"
| "js_times NaN b = NaN"
| "js_times a NaN = NaN"

definition compareScreenshots :: "node \<Rightarrow> bytes \<Rightarrow> bytes \<Rightarrow> real option \<Rightarrow> tool_error + compare_result" where
  "compareScreenshots nd actual expected threshold_opt =
     (let threshold = (case threshold_opt of None \<Rightarrow> 0.1 | Some t \<Rightarrow> t) in
      case png_read nd expected of
        None \<Rightarrow> Inl InvalidPng
      | Some img1 \<Rightarrow>
          (case png_read nd actual of
             None \<Rightarrow> Inl InvalidPng
           | Some img2 \<Rightarrow>
               if png_width img1 \<noteq> png_width img2 \<or> png_height img1 \<noteq> png_height img2
               then Inr \<lparr> match = False, diffPixels = - 1,
                          totalPixels = png_width img1 * png_height img1,
                          diffPercentage = Num 100, diffImageBase64 = None \<rparr>
               else
                 (let w = png_width img1; h = png_height img1;
                      (n, diff) = pixelmatch nd (png_data img1) (png_data img2) w h threshold;
                      total = w * h
                  in Inr \<lparr> match = (n = 0), diffPixels = int n, totalPixels = total,
                            diffPercentage = js_times (js_divide (js_number n) (js_number total)) (Num 100),
                            diffImageBase64 = Some (toBase64 nd
                              (png_write nd \<lparr> png_width = w, png_height = h, png_data = diff \<rparr>)) \<rparr>)))"

section \<open>Visual comparison tool (mcp-server.ts)\<close>

text \<open>\<open>Number.prototype.toFixed(2)\<close>.\<close>

function digits :: "nat \<Rightarrow> jsstring" where
  "digits n = (if n < 10 then [48 + of_nat n] else digits (n div 10) @ [48 + of_nat (n mod 10)])"
  by pat_completeness auto
termination
  by (relation "measure (\<lambda>n. n)") auto

declare digits.simps [simp del]

fun toFixed2 :: "node \<Rightarrow> number \<Rightarrow> jsstring" where
  "toFixed2 nd NaN = lit ''NaN''"
| "toFixed2 nd Infinity = lit ''Infinity''"
| "toFixed2 nd (Num x) =
     (if \<bar>x\<bar> \<ge> 10 ^ 21 then bigNumberString nd x
      else
        (let n = nat \<lfloor>\<bar>x\<bar> * 100 + 1 / 2\<rfloor>
         in (if x < 0 then lit ''-'' else []) @ digits (n div 100) @ lit ''.''
            @ [48 + of_nat (n mod 100 div 10), 48 + of_nat (n mod 10)]))"

definition dquote :: jsstring where
  "dquote = [0x22]"

text \<open>
  The handler of \<open>test_visual_compare\<close>, from the settled outcome \<open>shot\<close> of
  \<open>bridge.sendCommand('screenshot', {})\<close> on.  It acts on the file system of the baseline
  store rooted at \<open>baseDir\<close> and on the test session; its result is the object it returns
  as JSON text.
\<close>

definition test_visual_compare ::
  "node \<Rightarrow> jsstring \<Rightarrow> (int \<Rightarrow> jsstring) \<Rightarrow> int \<Rightarrow> jsstring \<Rightarrow> real option
     \<Rightarrow> bridge_error + jsval \<Rightarrow> fsys \<times> test_session \<Rightarrow> (tool_error + jsval) \<times> fsys \<times> test_session" where
  "test_visual_compare nd baseDir toISO now nm threshold_opt shot st =
     (let (fs, sess) = st in
      case shot of
        Inl e \<Rightarrow> (Inl (Bridge e), fs, sess)
      | Inr screenshotResult \<Rightarrow>
          if screenshotResult = JNull \<or> screenshotResult = JUndefined then (Inl TypeErr, fs, sess)
          else
            (case bufferFrom nd (getProp screenshotResult (lit ''data'')) of
               None \<Rightarrow> (Inl BadBuffer, fs, sess)
             | Some actual \<Rightarrow>
                 (case load (path_join nd) baseDir nm fs of
                    (Inl e, fs1) \<Rightarrow> (Inl (Store e), fs1, sess)
                  | (Inr None, fs1) \<Rightarrow>
                      (case save (path_join nd) baseDir nm actual fs1 of
                         (Inl e, fs2) \<Rightarrow> (Inl (Store e), fs2, sess)
                       | (Inr filePath, fs2) \<Rightarrow>
                           (Inr (JObj [(lit ''firstRun'', JBool True), (lit ''baselineSaved'', JBool True),
                                       (lit ''name'', JStr nm)]), fs2, sess))
                  | (Inr (Some baseline), fs1) \<Rightarrow>
                      (case compareScreenshots nd actual baseline threshold_opt of
                         Inl e \<Rightarrow> (Inl e, fs1, sess)
                       | Inr result \<Rightarrow>
                           (let saved =
                              (case diffImageBase64 result of
                                 None \<Rightarrow> (None, fs1)
                               | Some b64 \<Rightarrow>
                                   if \<not> match result \<and> b64 \<noteq> [] then
                                     (case bufferFrom nd (JStr b64) of
                                        None \<Rightarrow> (Some BadBuffer, fs1)
                                      | Some diff \<Rightarrow>
                                          (case saveDiff (path_join nd) baseDir nm diff fs1 of
                                             (Inl e, fs2) \<Rightarrow> (Some (Store e), fs2)
                                           | (Inr filePath, fs2) \<Rightarrow> (None, fs2)))
                                   else (None, fs1))
                            in case saved of
                                 (Some e, fs2) \<Rightarrow> (Inl e, fs2, sess)
                               | (None, fs2) \<Rightarrow>
                                   (Inr (JObj [(lit ''match'', JBool (match result)),
                                          (lit ''diffPixels'', JNum (of_int (diffPixels result))),
                                          (lit ''diffPercentage'', JStr (toFixed2 nd (diffPercentage result))),
                                          (lit ''totalPixels'', JNum (of_nat (totalPixels result))),
                                          (lit ''name'', JStr nm)]),
                                    fs2,
                                    addAssertion toISO now (match result)
                                      (lit ''Visual snapshot '' @ dquote @ nm @ dquote @ lit '' matches baseline'')
                                      sess))))))"

text \<open>
  The contract of \<open>pixelmatch\<close> that the comparison of an image with itself rests on:
  equal data have no differing pixel, at every threshold between 0 and 1.
\<close>

definition pixelmatch_reflexive :: "node \<Rightarrow> bool" where
  "pixelmatch_reflexive nd =
     (\<forall>d w h t. 0 \<le> t \<and> t \<le> 1 \<longrightarrow> fst (pixelmatch nd d d w h t) = 0)"

text \<open>
  Libraries for the scenarios.  An image file is its width, its height and its RGBA
  bytes; the differences counted are the bytes that differ.
\<close>

definition count_diff :: "bytes \<Rightarrow> bytes \<Rightarrow> nat" where
  "count_diff p q = length (filter (\<lambda>(x, y). x \<noteq> y) (zip p q))"

definition demo_node :: node where
  "demo_node = \<lparr>
     png_read = (\<lambda>bs. case bs of
        w # h # d \<Rightarrow> if w \<noteq> 0 \<and> h \<noteq> 0 \<and> length d = 4 * unat w * unat h
                    then Some \<lparr> png_width = unat w, png_height = unat h, png_data = d \<rparr> else None
      | _ \<Rightarrow> None),
     png_write = (\<lambda>img. of_nat (png_width img) # of_nat (png_height img) # png_data img),
     pixelmatch = (\<lambda>d1 d2 w h t. (count_diff d1 d2, d1)),
     toBase64 = map ucast,
     bufferFrom = (\<lambda>v. case v of JStr t \<Rightarrow> Some (map ucast t) | _ \<Rightarrow> None),
     path_join = demo_join,
     bigNumberString = (\<lambda>x. lit ''1e+21'') \<rparr>"

definition image_1x1 :: bytes where
  "image_1x1 = [1, 1, 9, 9, 9, 255]"

definition image_2x1 :: bytes where
  "image_2x1 = [2, 1, 9, 9, 9, 255, 9, 9, 9, 255]"

text \<open>
  Two images of 5 by 4 pixels that differ in 11 pixels, and two of 16 by 10 pixels that
  differ in 23 pixels.
\<close>

definition image_5x4 :: bytes where
  "image_5x4 = 5 # 4 # concat (replicate 20 [9, 9, 9, 255])"

definition image_5x4_changed :: bytes where
  "image_5x4_changed =
     5 # 4 # concat (replicate 11 [7, 9, 9, 255]) @ concat (replicate 9 [9, 9, 9, 255])"

definition image_16x10 :: bytes where
  "image_16x10 = 16 # 10 # concat (replicate 160 [9, 9, 9, 255])"

definition image_16x10_changed :: bytes where
  "image_16x10_changed =
     16 # 10 # concat (replicate 23 [7, 9, 9, 255]) @ concat (replicate 137 [9, 9, 9, 255])"

definition demo_fs1 :: fsys where
  "demo_fs1 = \<lparr> files = [(lit ''/baselines/home.png'', image_1x1)], fs_calls = [] \<rparr>"

definition screenshot_2x1 :: jsval where
  "screenshot_2x1 = JObj [(lit ''data'', JStr (map ucast image_2x1))]"

section \<open>Properties of the token comparison\<close>

lemma word_xor_eq_0: "(x XOR y = 0) = (x = (y::'a::len word))"
  by (metis xor.left_neutral xor.assoc xor_self_eq xor.commute)
lemma ucast_16_32_inj: "((ucast (a::16 word) :: 32 word) = ucast b) = (a = b)"
proof
  assume h: "(ucast a :: 32 word) = ucast b"
  have "(ucast (ucast a :: 32 word) :: 16 word) = ucast (ucast b :: 32 word)"
    using h by simp
  then show "a = b" by (simp add: ucast_up_ucast_id is_up)
qed simp


lemma timingSafeEqual_loop_zero:
  "length a = length b \<Longrightarrow>
   (snd (timingSafeEqual_loop a b i r) = 0) = (r = 0 \<and> (\<forall>j. i \<le> j \<and> j < length a \<longrightarrow> a ! j = b ! j))"
proof (induction a b i r rule: timingSafeEqual_loop.induct)
  case (1 a b i result)
  show ?case
  proof (cases "i < length a")
    case True
    have step: "(\<forall>j. i \<le> j \<and> j < length a \<longrightarrow> a ! j = b ! j)
        = (a ! i = b ! i \<and> (\<forall>j. i + 1 \<le> j \<and> j < length a \<longrightarrow> a ! j = b ! j))"
      using True by (auto simp: Suc_le_eq le_less) (metis Suc_lessI)
    have unfold: "timingSafeEqual_loop a b i result =
        timingSafeEqual_loop a b (i + 1) (result OR (charCodeAt32 a i XOR charCodeAt32 b i))"
      using True by (subst timingSafeEqual_loop.simps) simp
    have here: "(charCodeAt32 a i XOR charCodeAt32 b i = 0) = (a ! i = b ! i)"
      using True 1(2) by (simp add: word_xor_eq_0 ucast_16_32_inj charCodeAt32_def)
    show ?thesis
      unfolding unfold "1.IH"[OF True "1.prems"] step or_eq_0_iff here by blast
  next
    case False
    then show ?thesis by (subst timingSafeEqual_loop.simps) auto
  qed
qed

lemma timingSafeEqual_iff: "timingSafeEqual a b = (a = b)"
  by (auto simp: timingSafeEqual_def timingSafeEqual_loop_zero list_eq_iff_nth_eq)


section \<open>Properties of the test session\<close>

lemma addAssertions_fields:
  "assertions (addAssertions toISO cs s) =
     assertions s @ map (\<lambda>(t, p, m). \<lparr> passed = p, message = m, timestamp = toISO t \<rparr>) cs
   \<and> name (addAssertions toISO cs s) = name s
   \<and> startedAt (addAssertions toISO cs s) = startedAt s"
  by (induction cs arbitrary: s) (auto simp: addAssertion_def)

lemma filter_passed_map:
  "length (filter (passed \<circ>
      (\<lambda>(t, p, m). \<lparr> passed = p, message = m, timestamp = toISO t \<rparr>)) cs)
     = length (filter (\<lambda>(t, p, m). p) cs)"
  by (induction cs) auto

lemma filter_failed_map:
  "length (filter ((\<lambda>a. \<not> passed a) \<circ>
      (\<lambda>(t, p, m). \<lparr> passed = p, message = m, timestamp = toISO t \<rparr>)) cs)
     = length (filter (\<lambda>(t, p, m). \<not> p) cs)"
  by (induction cs) auto

text \<open>
  Claim C8.  A session window \<open>start(x); addAssertion ...; end()\<close> returns a summary
  named \<open>x\<close> whose \<open>total\<close> is the number of assertions added in the window, whose
  \<open>passed_count\<close> and \<open>failed_count\<close> count the assertions added with \<open>passed\<close> true and
  false, and whose \<open>passed\<close> is \<open>failed_count = 0\<close>; \<open>end()\<close> leaves the session idle.
  In particular \<open>start("s"); add(true,"a"); add(false,"b"); end()\<close> gives
  \<open>{name:"s", total:2, passed_count:1, failed_count:1, passed:false}\<close>, and
  \<open>start(x); end()\<close> gives \<open>{name:x, total:0, passed:true}\<close>.
\<close>

theorem session_end_summary:
  fixes toISO :: "int \<Rightarrow> jsstring"
  shows
    "(let sm = fst (session_end toISO t1 (addAssertions toISO cs (session_start t0 x s0))) in
        sum_name sm = x
      \<and> sum_passed sm = (failed_count sm = 0)
      \<and> total sm = length cs
      \<and> passed_count sm = length (filter (\<lambda>(t, p, m). p) cs)
      \<and> failed_count sm = length (filter (\<lambda>(t, p, m). \<not> p) cs)
      \<and> passed_count sm + failed_count sm = total sm)
   \<and> snd (session_end toISO t1 (addAssertions toISO cs (session_start t0 x s0))) = new_TestSession
   \<and> (let sm = fst (session_end toISO t3
          (addAssertion toISO t2 False (lit ''b'')
            (addAssertion toISO t1 True (lit ''a'') (session_start t0 (lit ''s'') s0)))) in
        sum_name sm = lit ''s'' \<and> total sm = 2 \<and> passed_count sm = 1
      \<and> failed_count sm = 1 \<and> sum_passed sm = False)
   \<and> (let sm = fst (session_end toISO t1 (session_start t0 x s0)) in
        total sm = 0 \<and> sum_passed sm = True \<and> sum_name sm = x)"
proof -
  have sum_len: "length (filter (\<lambda>(t, p, m). p) cs) + length (filter (\<lambda>(t, p, m). \<not> p) cs)
      = length cs" for cs :: "(int \<times> bool \<times> jsstring) list"
    by (induction cs) auto
  show ?thesis
    unfolding Let_def session_end_def
    by (simp add: addAssertions_fields filter_passed_map filter_failed_map sum_len
        session_start_def addAssertion_def new_TestSession_def)
qed

section \<open>Properties of the bridge\<close>

lemma length_toHex: "length (toHex bs) = 2 * length bs"
  by (induction bs) (auto simp: toHex_def)

lemma authToken_new: "length (authToken (new_WebSocketBridge rnd opts)) = 64"
  by (simp add: new_WebSocketBridge_def length_toHex randomBytes_def)

lemma toHex_zero: "toHex (randomBytes (\<lambda>_. 0) 32) = zero_token"
proof -
  have "randomBytes (\<lambda>_. 0) 32 = replicate 32 (0 :: 8 word)"
    by (simp add: randomBytes_def map_replicate_const)
  moreover have "toHex (replicate n (0 :: 8 word)) = replicate (2 * n) 48" for n
    by (induction n) (simp_all add: toHex_def hexDigit_def lit_def)
  ultimately show ?thesis by (simp add: zero_token_def)
qed

lemma demo_fields:
  "client demo_bridge = Some 3" "readyState demo_bridge 3 = OPEN" "\<not> isAuthenticated demo_bridge"
  "length (authToken demo_bridge) = 64" "handlers demo_bridge = [3]" "pending demo_bridge = []"
  "sent demo_bridge = []" "closeCalls demo_bridge = []" "auditLog demo_bridge = []"
  "allowedOrigins demo_bridge = [lit ''localhost'']"
  by (simp_all add: demo_bridge_def on_connection_def start_def new_WebSocketBridge_def Let_def
      length_toHex randomBytes_def demo_options_def)

subsection \<open>A second connection\<close>

text \<open>
  Claim C5, with the close reason as the code words it.
  When a new connection arrives while the current peer's socket is open, the new socket
  is closed with code 4001 and reason "Another client is already connected" (with a
  capital A); it gets no listeners and nothing is sent; the current peer stays the
  client, its socket stays open and the authentication flag keeps its value. In every
  state at most one peer is AUTHENTICATED.
\<close>

theorem second_connection_refused:
  assumes "client s = Some c" and "readyState s c = OPEN" and "ws \<noteq> c"
  shows "closeCalls (on_connection ws s) =
           closeCalls s @ [(ws, Some (4001, lit ''Another client is already connected''))]
       \<and> client (on_connection ws s) = Some c
       \<and> readyState (on_connection ws s) c = OPEN
       \<and> isAuthenticated (on_connection ws s) = isAuthenticated s
       \<and> handlers (on_connection ws s) = handlers s
       \<and> sent (on_connection ws s) = sent s
       \<and> (\<forall>a b. authenticated_peer (on_connection ws s) a
              \<and> authenticated_peer (on_connection ws s) b \<longrightarrow> a = b)"
  using assms by (auto simp: on_connection_def Let_def ws_close_def authenticated_peer_def)

theorem second_connection_refused_witness:
  "closeCalls (on_connection 4 demo_authenticated) =
           [(4, Some (4001, lit ''Another client is already connected''))]
 \<and> client (on_connection 4 demo_authenticated) = Some 3
 \<and> readyState (on_connection 4 demo_authenticated) 3 = OPEN
 \<and> isAuthenticated (on_connection 4 demo_authenticated)
 \<and> authenticated_peer (on_connection 4 demo_authenticated) 3
 \<and> \<not> authenticated_peer (on_connection 4 demo_authenticated) 4"
proof -
  have h: "client demo_authenticated = Some 3" "readyState demo_authenticated 3 = OPEN" "(4::nat) \<noteq> 3"
    by (simp_all add: demo_authenticated_def demo_fields)
  have f: "closeCalls demo_authenticated = []" "isAuthenticated demo_authenticated"
    by (simp_all add: demo_authenticated_def demo_fields)
  note t = second_connection_refused [OF h]
  have a: "closeCalls (on_connection 4 demo_authenticated) =
           [(4, Some (4001, lit ''Another client is already connected''))]
     \<and> client (on_connection 4 demo_authenticated) = Some 3
     \<and> readyState (on_connection 4 demo_authenticated) 3 = OPEN
     \<and> isAuthenticated (on_connection 4 demo_authenticated)"
    using t by (simp only: f append_Nil simp_thms)
  then have p3: "authenticated_peer (on_connection 4 demo_authenticated) 3"
    by (simp add: authenticated_peer_def)
  have "authenticated_peer (on_connection 4 demo_authenticated) 4 \<longrightarrow> (4::nat) = 3"
    using t p3 by blast
  then have p4: "\<not> authenticated_peer (on_connection 4 demo_authenticated) 4" by simp
  show ?thesis using a p3 p4 by blast
qed

text \<open>
  The reason as claim C5 words it, in lower case, is not the one the code sends.
\<close>

theorem second_connection_reason_counterexample:
  "closeCalls (on_connection 4 demo_authenticated) \<noteq>
     closeCalls demo_authenticated @ [(4, Some (4001, lit ''another client is already connected''))]"
  by (simp add: demo_authenticated_def demo_fields on_connection_def Let_def ws_close_def lit_def)


subsection \<open>The handshake\<close>

lemma handleMessage_auth:
  assumes "authToken s \<noteq> []" and "getProp msg (lit ''type'') = JStr (lit ''auth'')"
  shows "handleMessage now ws (Some msg) s =
     (if getProp msg (lit ''token'') = JStr (authToken s)
      then Inr (runCallbacks (onConnectCallbacks s) (ws_send ws (auth_ok_frame s) (s \<lparr> isAuthenticated := True \<rparr>)))
      else Inr (audit now (lit ''auth_failed'') [(lit ''extensionId'', getProp msg (lit ''extensionId''))]
             (ws_send ws auth_fail_frame s)))"
proof -
  have nn: "msg \<noteq> JNull" "msg \<noteq> JUndefined" using assms(2) by auto
  show ?thesis
    using assms nn
    by (auto simp: handleMessage_def Let_def timingSafeEqual_iff auth_ok_frame_def auth_fail_frame_def
        ws_send_def runCallbacks_def split: jsval.splits)
qed


lemma demo_token: "authToken demo_bridge = toHex (randomBytes (\<lambda>_. 0) 32)"
  by (simp add: demo_bridge_def on_connection_def start_def new_WebSocketBridge_def Let_def)




lemma lit_neq [simp]:
  "lit ''command'' \<noteq> lit ''auth''" "lit ''command'' \<noteq> lit ''response''"
  "lit ''response'' \<noteq> lit ''auth''" "lit ''auth'' \<noteq> lit ''command''"
  "lit ''response'' \<noteq> lit ''command''" "lit ''auth'' \<noteq> lit ''response''"
  by (simp_all add: lit_def)

lemma handleMessage_ping:
  assumes "is_ping msg"
  shows "handleMessage now ws (Some msg) s = Inr (ws_send ws (pong_frame (getProp msg (lit ''id''))) s)"
proof -
  have nn: "msg \<noteq> JNull" "msg \<noteq> JUndefined" using assms by (auto simp: is_ping_def)
  show ?thesis
    using assms nn by (simp add: handleMessage_def is_ping_def pong_frame_def)
qed

lemma handleMessage_ignored:
  assumes "msg \<noteq> JNull" "msg \<noteq> JUndefined"
    and "getProp msg (lit ''type'') \<noteq> JStr (lit ''auth'')"
    and "\<not> is_ping msg"
    and "\<not> (getProp msg (lit ''type'') = JStr (lit ''response'')
            \<and> truthy (getProp msg (lit ''id''))
            \<and> pending_get s (getProp msg (lit ''id'')) \<noteq> None)"
  shows "handleMessage now ws (Some msg) s = Inr s"
  using assms by (auto simp: handleMessage_def is_ping_def split: option.splits)

text \<open>
  Claim C4, for the frames the code ignores.
  Before authentication, a malformed frame is ignored, and so is every parsed frame other
  than \<open>null\<close> that is not an auth frame, not a ping command and not a
  response with a pending id: nothing is sent and the state is unchanged. A ping command
  is answered with a pong response also before authentication, the state being otherwise
  unchanged.
\<close>

theorem preauth_frames:
  assumes "client s = Some ws" and "readyState s ws = OPEN" and "\<not> isAuthenticated s"
  shows "handleMessage now ws None s = Inr s
     \<and> (\<forall>msg. msg \<noteq> JNull \<and> msg \<noteq> JUndefined
            \<and> getProp msg (lit ''type'') \<noteq> JStr (lit ''auth'')
            \<and> \<not> is_ping msg
            \<and> \<not> (getProp msg (lit ''type'') = JStr (lit ''response'')
                  \<and> pending_get s (getProp msg (lit ''id'')) \<noteq> None)
          \<longrightarrow> handleMessage now ws (Some msg) s = Inr s)
     \<and> (\<forall>msg. is_ping msg \<longrightarrow>
           handleMessage now ws (Some msg) s
             = Inr (s \<lparr> sent := sent s @ [(ws, pong_frame (getProp msg (lit ''id'')))] \<rparr>))"
  using handleMessage_ignored handleMessage_ping
  by (auto simp: handleMessage_def ws_send_def)

theorem preauth_frames_witness:
  "handleMessage (lit ''t'') 3 None demo_bridge = Inr demo_bridge
   \<and> handleMessage (lit ''t'') 3
        (Some (response_frame (JStr (lit ''k1'')) (JBool True) JNull)) demo_bridge = Inr demo_bridge
   \<and> handleMessage (lit ''t'') 3 (Some (ping_frame (JStr (lit ''k1'')))) demo_bridge
        = Inr (demo_bridge \<lparr> sent := [(3, pong_frame (JStr (lit ''k1'')))] \<rparr>)"
proof -
  have h: "client demo_bridge = Some 3" "readyState demo_bridge 3 = OPEN" "\<not> isAuthenticated demo_bridge"
    by (simp_all add: demo_fields)
  have r: "response_frame (JStr (lit ''k1'')) (JBool True) JNull \<noteq> JNull"
    "response_frame (JStr (lit ''k1'')) (JBool True) JNull \<noteq> JUndefined"
    "getProp (response_frame (JStr (lit ''k1'')) (JBool True) JNull) (lit ''type'') \<noteq> JStr (lit ''auth'')"
    "\<not> is_ping (response_frame (JStr (lit ''k1'')) (JBool True) JNull)"
    "\<not> (getProp (response_frame (JStr (lit ''k1'')) (JBool True) JNull) (lit ''type'') = JStr (lit ''response'')
        \<and> pending_get demo_bridge (getProp (response_frame (JStr (lit ''k1'')) (JBool True) JNull) (lit ''id'')) \<noteq> None)"
    by (simp_all add: response_frame_def is_ping_def lit_def demo_fields)
  have p: "is_ping (ping_frame (JStr (lit ''k1'')))"
    "getProp (ping_frame (JStr (lit ''k1''))) (lit ''id'') = JStr (lit ''k1'')"
    by (simp_all add: ping_frame_def is_ping_def lit_def)
  from preauth_frames [OF h, of "lit ''t''"] r p show ?thesis
    by (simp only: demo_fields append_Nil) blast
qed

text \<open>A ping sent before authentication gets its pong.\<close>

theorem preauth_ping_counterexample:
  "\<not> isAuthenticated demo_bridge
   \<and> sent demo_bridge = []
   \<and> \<not> isl (handleMessage (lit ''t'') 3 (Some (ping_frame (JStr (lit ''k1'')))) demo_bridge)
   \<and> sent (projr (handleMessage (lit ''t'') 3 (Some (ping_frame (JStr (lit ''k1'')))) demo_bridge))
        = [(3, pong_frame (JStr (lit ''k1'')))]"
proof -
  have p: "is_ping (ping_frame (JStr (lit ''k1'')))"
    "getProp (ping_frame (JStr (lit ''k1''))) (lit ''id'') = JStr (lit ''k1'')"
    by (simp_all add: ping_frame_def is_ping_def lit_def)
  show ?thesis
    unfolding handleMessage_ping [OF p(1)] p(2)
    by (simp add: demo_fields ws_send_def)
qed

lemma rejectAll_fields:
  "pending (rejectAll e ps s) = filter (\<lambda>(k, p). k \<notin> fst ` set ps) (pending s)
 \<and> timers (rejectAll e ps s) = filter (\<lambda>(k, t). k \<notin> (timer \<circ> snd) ` set ps) (timers s)
 \<and> settled (rejectAll e ps s) = settled s @ map (\<lambda>(k, p). (promise p, Rejected e)) ps
 \<and> sent (rejectAll e ps s) = sent s
 \<and> client (rejectAll e ps s) = client s
 \<and> isAuthenticated (rejectAll e ps s) = isAuthenticated s
 \<and> readyState (rejectAll e ps s) = readyState s
 \<and> handlers (rejectAll e ps s) = handlers s
 \<and> closeCalls (rejectAll e ps s) = closeCalls s
 \<and> auditLog (rejectAll e ps s) = auditLog s
 \<and> authToken (rejectAll e ps s) = authToken s"
proof (induction ps arbitrary: s)
  case Nil
  then show ?case by simp
next
  case (Cons a ps)
  obtain k p where a: "a = (k, p)" by (cases a)
  show ?case
    unfolding a
    by (simp add: Cons.IH pending_delete_def clearTimeout_def settle_def AList.delete_eq
        case_prod_unfold) (auto intro!: filter_cong)
qed

subsection \<open>The pending table\<close>

lemma dispatched_sent_cong: "sent s' = sent s \<Longrightarrow> dispatched s' = dispatched s"
  by (simp add: dispatched_def)

lemma filter_keys_all:
  "filter (\<lambda>(k, p). k \<notin> fst ` set xs) xs = []"
  by (force simp: filter_empty_conv)

lemma pending_inv_rejectAll:
  assumes "pending_inv s" and "terminal_event (Rejected e)"
  shows "pending_inv (rejectAll e (pending s) s)"
    and "pending (rejectAll e (pending s) s) = []"
    and "timers (rejectAll e (pending s) s) = []"
proof -
  let ?s' = "rejectAll e (pending s) s"
  have d: "\<forall>(k, p) \<in> set (pending s). promise p = k \<and> timer p = k"
    using assms(1) by (simp add: pending_inv_def)
  have img: "(timer \<circ> snd) ` set (pending s) = fst ` set (pending s)"
    using d by (force simp: image_iff)
  have tk: "fst ` set (timers s) = fst ` set (pending s)"
    using assms(1) by (simp add: pending_inv_def)
  show p: "pending ?s' = []"
    by (simp add: rejectAll_fields filter_keys_all)
  show t: "timers ?s' = []"
    unfolding rejectAll_fields [THEN conjunct2, THEN conjunct1] img tk [symmetric]
    by (force simp: filter_empty_conv)
  have sk: "map fst (settled ?s') = map fst (settled s) @ map fst (pending s)"
    using d by (auto simp: rejectAll_fields)
  have so: "set (map snd (settled ?s')) \<subseteq> set (map snd (settled s)) \<union> {Rejected e}"
    by (auto simp: rejectAll_fields)
  have disp: "dispatched ?s' = dispatched s"
    by (rule dispatched_sent_cong) (simp add: rejectAll_fields)
  have "\<forall>out \<in> set (map snd (settled ?s')). terminal_event out"
    using assms by (auto simp: rejectAll_fields pending_inv_def)
  then show "pending_inv ?s'"
    using assms
    unfolding pending_inv_def p t sk disp
    by auto
qed

lemma pending_inv_terminate:
  assumes "pending_inv s" and "k \<in> set (map fst (pending s))" and "terminal_event out"
    and "pending s' = AList.delete k (pending s)"
    and "timers s' = AList.delete k (timers s)"
    and "settled s' = settled s @ [(k, out)]"
    and "sent s' = sent s"
  shows "pending_inv s'"
proof -
  have disp: "dispatched s' = dispatched s"
    using assms(7) by (rule dispatched_sent_cong)
  have sub: "set (AList.delete k (pending s)) \<subseteq> set (pending s)"
    by (auto simp: AList.delete_eq)
  show ?thesis
    using assms(1,2,3) sub
    unfolding pending_inv_def assms(4,5,6) disp
    by (auto simp: delete_keys distinct_removeAll)
qed

lemma pending_inv_on_timeout:
  assumes "pending_inv s"
  shows "pending_inv (on_timeout t s)"
proof (cases "map_of (timers s) t")
  case None
  then show ?thesis using assms by (simp add: on_timeout_def)
next
  case (Some a)
  obtain command timeoutMs where a: "a = (command, timeoutMs)" by (cases a)
  have "t \<in> set (map fst (timers s))"
    using Some by (metis map_of_eq_None_iff option.distinct(1) set_map)
  then have k: "t \<in> set (map fst (pending s))"
    using assms by (simp add: pending_inv_def)
  show ?thesis
    by (rule pending_inv_terminate [OF assms k, of "Rejected (TimedOut command timeoutMs)"])
       (simp_all add: on_timeout_def Some a settle_def pending_delete_def clearTimeout_def)
qed

lemma command_id_frames:
  "command_id (auth_ok_frame s) = []" "command_id auth_fail_frame = []"
  "command_id (pong_frame i) = []"
  "command_id (JObj [(lit ''id'', JStr uuid), (lit ''type'', JStr (lit ''command'')),
      (lit ''command'', JStr command), (lit ''params'', JObj ps)]) = [uuid]"
  by (simp_all add: command_id_def auth_ok_frame_def auth_fail_frame_def pong_frame_def lit_def)

lemma handleMessage_auth_cases:
  assumes "getProp msg (lit ''type'') = JStr (lit ''auth'')"
  shows "handleMessage now ws (Some msg) s =
           Inr (runCallbacks (onConnectCallbacks s) (ws_send ws (auth_ok_frame s) (s \<lparr> isAuthenticated := True \<rparr>)))
       \<or> handleMessage now ws (Some msg) s =
           Inr (audit now (lit ''auth_failed'') [(lit ''extensionId'', getProp msg (lit ''extensionId''))]
             (ws_send ws auth_fail_frame s))"
proof -
  have nn: "msg \<noteq> JNull" "msg \<noteq> JUndefined" using assms by auto
  show ?thesis
    using assms nn
    by (simp add: handleMessage_def Let_def auth_ok_frame_def auth_fail_frame_def
        ws_send_def runCallbacks_def)
qed

lemma handleMessage_response:
  assumes "getProp msg (lit ''type'') = JStr (lit ''response'')"
    and "getProp msg (lit ''id'') = JStr k" and "k \<noteq> []"
    and "map_of (pending s) k = Some p"
  shows "handleMessage now ws (Some msg) s =
     Inr (settle (promise p) (response_outcome msg) (pending_delete k (clearTimeout (timer p) s)))"
proof -
  have nn: "msg \<noteq> JNull" "msg \<noteq> JUndefined" using assms(1) by auto
  have pd: "pending (clearTimeout (timer p) s) = pending s"
    by (simp add: clearTimeout_def)
  show ?thesis
    using assms nn
    by (simp add: handleMessage_def Let_def response_outcome_def)
qed

lemma terminal_response_outcome: "terminal_event (response_outcome msg)"
  by (simp add: response_outcome_def)

lemma pending_inv_handleMessage:
  assumes "pending_inv s" and "handleMessage now ws parsed s = Inr s'"
  shows "pending_inv s'"
proof (cases parsed)
  case None
  then show ?thesis using assms by (simp add: handleMessage_def)
next
  case (Some msg)
  have nn: "msg \<noteq> JNull" "msg \<noteq> JUndefined"
    using assms(2) Some by (auto simp: handleMessage_def split: if_splits)
  consider (auth) "getProp msg (lit ''type'') = JStr (lit ''auth'')"
    | (resp) "getProp msg (lit ''type'') = JStr (lit ''response'')" "truthy (getProp msg (lit ''id''))"
        "pending_get s (getProp msg (lit ''id'')) \<noteq> None"
    | (ping) "is_ping msg"
    | (ign) "getProp msg (lit ''type'') \<noteq> JStr (lit ''auth'')" "\<not> is_ping msg"
        "\<not> (getProp msg (lit ''type'') = JStr (lit ''response'')
            \<and> truthy (getProp msg (lit ''id''))
            \<and> pending_get s (getProp msg (lit ''id'')) \<noteq> None)"
    by blast
  then show ?thesis
  proof cases
    case auth
    have unch: "pending s' = pending s \<and> timers s' = timers s \<and> settled s' = settled s
        \<and> dispatched s' = dispatched s"
      using assms(2) Some handleMessage_auth_cases [OF auth, of now ws s]
      by (auto simp: ws_send_def runCallbacks_def audit_def dispatched_def command_id_frames)
    then show ?thesis using assms(1) by (simp add: pending_inv_def)
  next
    case resp
    obtain k where k: "getProp msg (lit ''id'') = JStr k"
      using resp(3) by (cases "getProp msg (lit ''id'')") auto
    obtain p where p: "map_of (pending s) k = Some p"
      using resp(3) k by auto
    have mem: "(k, p) \<in> set (pending s)" using p by (rule map_of_SomeD)
    then have pk: "promise p = k" "timer p = k"
      using assms(1) by (auto simp: pending_inv_def)
    have kin: "k \<in> set (map fst (pending s))" using mem by force
    have kne: "k \<noteq> []" using resp(2) k by simp
    have s': "s' = settle k (response_outcome msg) (pending_delete k (clearTimeout k s))"
      using assms(2) Some handleMessage_response [OF resp(1) k kne p, of now ws] pk by simp
    show ?thesis
      by (rule pending_inv_terminate [OF assms(1) kin terminal_response_outcome [of msg]])
         (simp_all add: s' settle_def pending_delete_def clearTimeout_def)
  next
    case ping
    have unch: "pending s' = pending s \<and> timers s' = timers s \<and> settled s' = settled s
        \<and> dispatched s' = dispatched s"
      using assms(2) Some handleMessage_ping [OF ping, of now ws s]
      by (auto simp: ws_send_def dispatched_def command_id_frames)
    then show ?thesis using assms(1) by (simp add: pending_inv_def)
  next
    case ign
    have "s' = s"
      using assms(2) Some handleMessage_ignored [OF nn ign, of now ws] by simp
    then show ?thesis using assms(1) by simp
  qed
qed

lemma update_new_key:
  "k \<notin> set (map fst al) \<Longrightarrow> AList.update k v al = al @ [(k, v)]"
  by (induction al) auto

lemma pending_inv_sendCommand:
  assumes "pending_inv s" and "uuid \<notin> set (dispatched s)"
  shows "pending_inv (snd (sendCommand uuid now command ps timeoutMs s))"
proof (cases "connected s")
  case False
  then show ?thesis using assms(1) by (simp add: sendCommand_def)
next
  case True
  then obtain c where c: "client s = Some c"
    by (auto simp: connected_def split: option.splits)
  let ?s' = "snd (sendCommand uuid now command ps timeoutMs s)"
  have fresh: "uuid \<notin> set (map fst (pending s))" "uuid \<notin> set (map fst (timers s))"
      "uuid \<notin> set (map fst (settled s))"
    using assms by (auto simp: pending_inv_def)
  have f: "pending ?s' = AList.update uuid \<lparr> promise = uuid, timer = uuid \<rparr> (pending s)"
      "timers ?s' = AList.update uuid (command, timeoutMs) (timers s)"
      "settled ?s' = settled s"
      "dispatched ?s' = dispatched s @ [uuid]"
    using True c
    by (simp_all add: sendCommand_def Let_def audit_def ws_send_def dispatched_def command_id_frames)
  have pset: "set (AList.update uuid \<lparr> promise = uuid, timer = uuid \<rparr> (pending s))
      = insert (uuid, \<lparr> promise = uuid, timer = uuid \<rparr>) (set (pending s))"
    using fresh(1) by (simp add: update_new_key)
  show ?thesis
    using assms(1) fresh
    unfolding pending_inv_def f pset
    by (auto simp: update_keys distinct_update)
qed

lemma pending_inv_cong:
  assumes "pending s' = pending s" "timers s' = timers s" "settled s' = settled s" "sent s' = sent s"
  shows "pending_inv s' = pending_inv s"
  by (simp add: pending_inv_def assms dispatched_sent_cong [OF assms(4)])

lemma pending_inv_on_connection:
  assumes "pending_inv s"
  shows "pending_inv (on_connection ws s)"
proof -
  have "pending_inv (on_connection ws s) = pending_inv s"
    by (rule pending_inv_cong) (simp_all add: on_connection_def Let_def ws_close_def)
  then show ?thesis using assms by simp
qed

lemma on_close_client:
  assumes "client s = Some ws" and "ws \<in> set (handlers s)"
  shows "on_close ws s = (let s1 = s \<lparr> readyState := (readyState s)(ws := CLOSED),
                                      client := None, isAuthenticated := False \<rparr>;
                              s2 = rejectAll Disconnected (pending s1) s1
                          in runCallbacks (onDisconnectCallbacks s2) s2)"
  using assms by (simp add: on_close_def Let_def)

lemma pending_inv_on_close:
  assumes "pending_inv s"
  shows "pending_inv (on_close ws s)"
proof (cases "client s = Some ws \<and> ws \<in> set (handlers s)")
  case True
  let ?s1 = "s \<lparr> readyState := (readyState s)(ws := CLOSED), client := None, isAuthenticated := False \<rparr>"
  have i1: "pending_inv ?s1"
    using assms pending_inv_cong [of ?s1 s] by simp
  have i2: "pending_inv (rejectAll Disconnected (pending ?s1) ?s1)"
    by (rule pending_inv_rejectAll(1) [OF i1]) simp
  have "pending_inv (on_close ws s) = pending_inv (rejectAll Disconnected (pending ?s1) ?s1)"
    unfolding on_close_client [OF True [THEN conjunct1] True [THEN conjunct2]] Let_def
    by (rule pending_inv_cong) (simp_all add: runCallbacks_def)
  then show ?thesis using i2 by simp
next
  case False
  have "pending_inv (on_close ws s) = pending_inv s"
    using False by (intro pending_inv_cong) (auto simp: on_close_def Let_def)
  then show ?thesis using assms by simp
qed

lemma pending_on_close:
  assumes "pending_inv s" and "client s = Some ws" and "ws \<in> set (handlers s)"
  shows "pending (on_close ws s) = []" and "sent (on_close ws s) = sent s"
proof -
  let ?s1 = "s \<lparr> readyState := (readyState s)(ws := CLOSED), client := None, isAuthenticated := False \<rparr>"
  have i1: "pending_inv ?s1"
    using assms(1) pending_inv_cong [of ?s1 s] by simp
  have e: "pending (rejectAll Disconnected (pending ?s1) ?s1) = []"
    by (rule pending_inv_rejectAll(2) [OF i1]) simp
  show "pending (on_close ws s) = []"
    unfolding on_close_client [OF assms(2,3)] Let_def using e by (simp add: runCallbacks_def)
  show "sent (on_close ws s) = sent s"
    unfolding on_close_client [OF assms(2,3)] Let_def
    by (simp add: runCallbacks_def rejectAll_fields)
qed

lemma pending_inv_stop:
  assumes "pending_inv s"
  shows "pending_inv (stop s)" and "pending (stop s) = []" and "sent (stop s) = sent s"
proof -
  let ?s1 = "rejectAll ShuttingDown (pending s) s"
  have i1: "pending_inv ?s1" and e: "pending ?s1 = []"
    using pending_inv_rejectAll [OF assms, of ShuttingDown] by simp_all
  have f: "pending (stop s) = pending ?s1" "timers (stop s) = timers ?s1"
    "settled (stop s) = settled ?s1" "sent (stop s) = sent ?s1"
    by (simp_all add: stop_def Let_def ws_close_def split: option.splits)
  show "pending_inv (stop s)"
    using pending_inv_cong [OF f] i1 by simp
  show "pending (stop s) = []" using f(1) e by simp
  show "sent (stop s) = sent s" using f(4) by (simp add: rejectAll_fields)
qed

lemma pending_inv_step:
  assumes "pending_inv s" and "step e s = Inr s'"
    and "case e of SendCommand uuid now command ps timeoutMs \<Rightarrow> uuid \<notin> set (dispatched s) | _ \<Rightarrow> True"
  shows "pending_inv s'"
proof (cases e)
  case (Connection ws)
  then show ?thesis using assms pending_inv_on_connection by auto
next
  case (Message now ws parsed)
  then show ?thesis
    using assms pending_inv_handleMessage [of s now ws parsed s']
    by (auto simp: on_message_def split: if_splits)
next
  case (Close ws)
  then show ?thesis using assms pending_inv_on_close by auto
next
  case (Timeout t)
  then show ?thesis using assms pending_inv_on_timeout by auto
next
  case (SendCommand uuid now command ps timeoutMs)
  then show ?thesis using assms pending_inv_sendCommand by auto
next
  case Stop
  then show ?thesis using assms pending_inv_stop(1) by auto
qed

lemma pending_inv_run:
  assumes "pending_inv s" and "run evs s = Inr s'" and "fresh_uuids evs s"
  shows "pending_inv s'"
  using assms
proof (induction evs arbitrary: s)
  case Nil
  then show ?case by simp
next
  case (Cons e evs)
  from Cons.prems(2) obtain s1 where s1: "step e s = Inr s1" and r: "run evs s1 = Inr s'"
    by (auto split: sum.splits)
  have fr: "case e of SendCommand uuid now command ps timeoutMs \<Rightarrow> uuid \<notin> set (dispatched s) | _ \<Rightarrow> True"
    and fr': "fresh_uuids evs s1"
    using Cons.prems(3) s1 by simp_all
  have "pending_inv s1"
    by (rule pending_inv_step [OF Cons.prems(1) s1 fr])
  then show ?case
    by (rule Cons.IH [OF _ r fr'])
qed

lemma pending_inv_new: "pending_inv (new_WebSocketBridge rnd options)"
  by (simp add: pending_inv_def new_WebSocketBridge_def dispatched_def)

lemma filter_key_distinct:
  "distinct (map fst xs) \<Longrightarrow> (k, v) \<in> set xs \<Longrightarrow> filter (\<lambda>(p, out). p = k) xs = [(k, v)]"
proof (induction xs)
  case Nil
  then show ?case by simp
next
  case (Cons a xs)
  show ?case
  proof (cases "a = (k, v)")
    case True
    have "filter (\<lambda>(p, out). p = k) xs = []"
      using Cons.prems(1) True by (force simp: filter_empty_conv)
    then show ?thesis using True by simp
  next
    case False
    then have "(k, v) \<in> set xs" using Cons.prems(2) by simp
    moreover have "fst a \<noteq> k" using Cons.prems(1) calculation by (auto simp: image_iff)
    ultimately show ?thesis using Cons by (auto simp: case_prod_unfold)
  qed
qed

lemma filter_key_absent:
  "k \<notin> set (map fst xs) \<Longrightarrow> filter (\<lambda>(p, out). p = k) xs = []"
  by (force simp: filter_empty_conv)

lemma pending_inv_status:
  assumes "pending_inv s" and "k \<in> set (dispatched s)"
  shows "(map_of (pending s) k \<noteq> None \<longrightarrow> in_flight s k)
       \<and> (map_of (pending s) k = None \<longrightarrow> terminated s k)"
proof (cases "k \<in> set (map fst (pending s))")
  case True
  have "k \<in> set (map fst (timers s))" "k \<notin> set (map fst (settled s))"
    using assms(1) True by (auto simp: pending_inv_def)
  then have "in_flight s k"
    using True by (simp add: in_flight_def map_of_eq_None_iff filter_key_absent)
  then show ?thesis using True by (simp add: map_of_eq_None_iff)
next
  case False
  then have ks: "k \<in> set (map fst (settled s))"
    using assms by (auto simp: pending_inv_def)
  then obtain out where out: "(k, out) \<in> set (settled s)" by auto
  have d: "distinct (map fst (settled s))" using assms(1) by (simp add: pending_inv_def)
  have t: "terminal_event out" using assms(1) out by (force simp: pending_inv_def)
  have "k \<notin> set (map fst (timers s))" using assms(1) False by (simp add: pending_inv_def)
  then have "terminated s k"
    using False t by (simp add: terminated_def map_of_eq_None_iff filter_key_distinct [OF d out])
  then show ?thesis using False by (simp add: map_of_eq_None_iff)
qed

lemma handleMessage_dropped:
  assumes "getProp msg (lit ''type'') = JStr (lit ''response'')"
    and "pending_get s (getProp msg (lit ''id'')) = None"
  shows "handleMessage now ws (Some msg) s = Inr s"
proof -
  have nn: "msg \<noteq> JNull" "msg \<noteq> JUndefined" using assms(1) by auto
  show ?thesis
    by (rule handleMessage_ignored [OF nn]) (simp_all add: assms is_ping_def)
qed

text \<open>
  Claim C2.  In every state the bridge reaches from its construction, with ids that
  \<open>randomUUID\<close> never repeats, each dispatched command is either in flight or
  terminated: settled exactly once, by a response, a timeout, the disconnect of the peer
  or the shutdown, and absent from the pending table.  Each of the four events
  terminates a command in flight: the timeout of its timer, \<open>stop\<close>, the close of the
  client's socket, and a response frame with its id.  A response frame whose id has no
  pending entry leaves the state as it is; in particular nothing is sent.
\<close>

theorem pending_lifecycle:
  assumes "run evs (new_WebSocketBridge rnd options) = Inr s"
    and "fresh_uuids evs (new_WebSocketBridge rnd options)"
  shows "(\<forall>k \<in> set (dispatched s). in_flight s k \<or> terminated s k)
     \<and> (\<forall>k \<in> set (dispatched s). in_flight s k \<longrightarrow>
           terminated (on_timeout k s) k
         \<and> terminated (stop s) k
         \<and> (\<forall>ws. client s = Some ws \<and> ws \<in> set (handlers s) \<longrightarrow> terminated (on_close ws s) k)
         \<and> (\<forall>now ws msg. k \<noteq> [] \<and> getProp msg (lit ''type'') = JStr (lit ''response'')
                \<and> getProp msg (lit ''id'') = JStr k \<longrightarrow>
               (case handleMessage now ws (Some msg) s of
                  Inl err \<Rightarrow> False
                | Inr s' \<Rightarrow> terminated s' k \<and> settled s' = settled s @ [(k, response_outcome msg)])))
     \<and> (\<forall>now ws msg. getProp msg (lit ''type'') = JStr (lit ''response'')
            \<and> pending_get s (getProp msg (lit ''id'')) = None \<longrightarrow>
          handleMessage now ws (Some msg) s = Inr s)"
proof -
  have inv: "pending_inv s"
    by (rule pending_inv_run [OF pending_inv_new assms])
  have a: "in_flight s k \<or> terminated s k" if "k \<in> set (dispatched s)" for k
    using pending_inv_status [OF inv that] by blast
  have b1: "terminated (on_timeout k s) k" if k: "k \<in> set (dispatched s)" and f: "in_flight s k" for k
  proof -
    obtain c where c: "map_of (timers s) k = Some c" using f by (auto simp: in_flight_def)
    have p: "map_of (pending (on_timeout k s)) k = None"
      using c by (simp add: on_timeout_def settle_def pending_delete_def clearTimeout_def
          delete_conv' split: prod.splits)
    have d: "k \<in> set (dispatched (on_timeout k s))"
      using k dispatched_sent_cong [of "on_timeout k s" s] c
      by (simp add: on_timeout_def settle_def pending_delete_def clearTimeout_def split: prod.splits)
    show ?thesis
      using pending_inv_status [OF pending_inv_on_timeout [OF inv] d] p by simp
  qed
  have b2: "terminated (stop s) k" if k: "k \<in> set (dispatched s)" for k
  proof -
    have d: "k \<in> set (dispatched (stop s))"
      using k dispatched_sent_cong [OF pending_inv_stop(3) [OF inv]] by simp
    show ?thesis
      using pending_inv_status [OF pending_inv_stop(1) [OF inv] d] pending_inv_stop(2) [OF inv]
      by simp
  qed
  have b3: "terminated (on_close ws s) k"
    if k: "k \<in> set (dispatched s)" and c: "client s = Some ws" "ws \<in> set (handlers s)" for k ws
  proof -
    have d: "k \<in> set (dispatched (on_close ws s))"
      using k dispatched_sent_cong [OF pending_on_close(2) [OF inv c]] by simp
    show ?thesis
      using pending_inv_status [OF pending_inv_on_close [OF inv] d] pending_on_close(1) [OF inv c]
      by simp
  qed
  have b4: "case handleMessage now ws (Some msg) s of
              Inl err \<Rightarrow> False
            | Inr s' \<Rightarrow> terminated s' k \<and> settled s' = settled s @ [(k, response_outcome msg)]"
    if k: "k \<in> set (dispatched s)" and f: "in_flight s k" and ne: "k \<noteq> []"
      and ty: "getProp msg (lit ''type'') = JStr (lit ''response'')"
      and id: "getProp msg (lit ''id'') = JStr k" for k now ws msg
  proof -
    obtain p where p: "map_of (pending s) k = Some p" using f by (auto simp: in_flight_def)
    have "(k, p) \<in> set (pending s)" using p by (rule map_of_SomeD)
    then have pk: "promise p = k" "timer p = k" using inv by (auto simp: pending_inv_def)
    let ?s' = "settle k (response_outcome msg) (pending_delete k (clearTimeout k s))"
    have h: "handleMessage now ws (Some msg) s = Inr ?s'"
      using handleMessage_response [OF ty id ne p, of now ws] pk by simp
    have i: "pending_inv ?s'"
      by (rule pending_inv_handleMessage [OF inv h])
    have d: "k \<in> set (dispatched ?s')"
      using k dispatched_sent_cong [of ?s' s]
      by (simp add: settle_def pending_delete_def clearTimeout_def)
    have n: "map_of (pending ?s') k = None"
      by (simp add: settle_def pending_delete_def clearTimeout_def delete_conv')
    have "terminated ?s' k"
      using pending_inv_status [OF i d] n by simp
    then show ?thesis
      unfolding h by (simp add: settle_def pending_delete_def clearTimeout_def)
  qed
  show ?thesis
    using a b1 b2 b3 b4 handleMessage_dropped by blast
qed

lemma lit_keys [simp]:
  "lit ''k1'' \<noteq> lit ''k2''" "lit ''k2'' \<noteq> lit ''k1''" "lit ''k1'' \<noteq> []" "lit ''k2'' \<noteq> []"
  by (simp_all add: lit_def)

lemma demo_run_result:
  "run demo_run (new_WebSocketBridge (\<lambda>_. 0) demo_options) = Inr demo_final"
  by (simp add: demo_run_def new_WebSocketBridge_def on_connection_def on_message_def
      handleMessage_def Let_def toHex_zero timingSafeEqual_iff auth_frame_def response_frame_def
      ws_send_def runCallbacks_def sendCommand_def connected_def audit_def on_timeout_def
      settle_def pending_delete_def clearTimeout_def zero_token_def auth_ok_frame_def
      demo_fields demo_options_def lit_def demo_final_def)

lemma demo_run_fresh:
  "fresh_uuids demo_run (new_WebSocketBridge (\<lambda>_. 0) demo_options)"
  by (simp add: demo_run_def new_WebSocketBridge_def on_connection_def on_message_def
      handleMessage_def Let_def toHex_zero timingSafeEqual_iff auth_frame_def response_frame_def
      ws_send_def runCallbacks_def sendCommand_def connected_def audit_def on_timeout_def
      settle_def pending_delete_def clearTimeout_def zero_token_def auth_ok_frame_def
      demo_fields demo_options_def lit_def dispatched_def command_id_def)

lemma demo_run_pending_result:
  "run demo_run_pending (new_WebSocketBridge (\<lambda>_. 0) demo_options) = Inr demo_pending"
  by (simp add: demo_run_pending_def new_WebSocketBridge_def on_connection_def on_message_def
      handleMessage_def Let_def toHex_zero timingSafeEqual_iff auth_frame_def
      ws_send_def runCallbacks_def sendCommand_def connected_def audit_def
      zero_token_def auth_ok_frame_def
      demo_fields demo_options_def lit_def demo_pending_def)

lemma demo_run_pending_fresh:
  "fresh_uuids demo_run_pending (new_WebSocketBridge (\<lambda>_. 0) demo_options)"
  by (simp add: demo_run_pending_def new_WebSocketBridge_def on_connection_def on_message_def
      handleMessage_def Let_def toHex_zero timingSafeEqual_iff auth_frame_def
      ws_send_def runCallbacks_def sendCommand_def connected_def audit_def
      zero_token_def auth_ok_frame_def
      demo_fields demo_options_def lit_def dispatched_def command_id_def)

theorem pending_lifecycle_witness:
  "run demo_run (new_WebSocketBridge (\<lambda>_. 0) demo_options) = Inr demo_final
   \<and> fresh_uuids demo_run (new_WebSocketBridge (\<lambda>_. 0) demo_options)
   \<and> dispatched demo_final = [lit ''k1'', lit ''k2'']
   \<and> terminated demo_final (lit ''k1'') \<and> terminated demo_final (lit ''k2'')
   \<and> settled demo_final = [(lit ''k1'', Resolved (JStr (lit ''https://example.com/test''))),
                            (lit ''k2'', Rejected (TimedOut (lit ''title'') 100))]
   \<and> run demo_run_pending (new_WebSocketBridge (\<lambda>_. 0) demo_options) = Inr demo_pending
   \<and> fresh_uuids demo_run_pending (new_WebSocketBridge (\<lambda>_. 0) demo_options)
   \<and> dispatched demo_pending = [lit ''k1'']
   \<and> in_flight demo_pending (lit ''k1'')
   \<and> terminated (on_timeout (lit ''k1'') demo_pending) (lit ''k1'')
   \<and> terminated (stop demo_pending) (lit ''k1'')
   \<and> terminated (on_close 3 demo_pending) (lit ''k1'')
   \<and> \<not> isl (handleMessage (lit ''t2'') 3 (Some late_response) demo_pending)
   \<and> terminated (projr (handleMessage (lit ''t2'') 3 (Some late_response) demo_pending)) (lit ''k1'')
   \<and> handleMessage (lit ''t2'') 3 (Some late_response) demo_final = Inr demo_final"
proof -
  have d: "dispatched demo_final = [lit ''k1'', lit ''k2'']"
    by (simp add: dispatched_def demo_final_def command_id_frames)
  have p: "pending demo_final = []"
    by (simp add: demo_final_def new_WebSocketBridge_def)
  have n: "\<not> in_flight demo_final k" for k
    by (simp add: in_flight_def p)
  have st: "settled demo_final = [(lit ''k1'', Resolved (JStr (lit ''https://example.com/test''))),
                            (lit ''k2'', Rejected (TimedOut (lit ''title'') 100))]"
    by (simp add: demo_final_def)
  note final = pending_lifecycle [OF demo_run_result demo_run_fresh]
  note pend = pending_lifecycle [OF demo_run_pending_result demo_run_pending_fresh]
  have "\<forall>k \<in> set (dispatched demo_final). in_flight demo_final k \<or> terminated demo_final k"
    using final by blast
  then have t: "terminated demo_final (lit ''k1'') \<and> terminated demo_final (lit ''k2'')"
    unfolding d using n by simp
  have lr: "getProp late_response (lit ''type'') = JStr (lit ''response'')"
    "getProp late_response (lit ''id'') = JStr (lit ''k1'')"
    by (simp_all add: late_response_def response_frame_def lit_def)
  have dropped: "handleMessage (lit ''t2'') 3 (Some late_response) demo_final = Inr demo_final"
    using final lr p by simp
  have dp: "dispatched demo_pending = [lit ''k1'']"
    by (simp add: dispatched_def demo_pending_def command_id_frames)
  have fl: "in_flight demo_pending (lit ''k1'')"
    by (simp add: in_flight_def demo_pending_def new_WebSocketBridge_def)
  have c: "client demo_pending = Some 3 \<and> 3 \<in> set (handlers demo_pending)"
    by (simp add: demo_pending_def)
  have k: "lit ''k1'' \<in> set (dispatched demo_pending)" using dp by simp
  have inner: "terminated (on_timeout (lit ''k1'') demo_pending) (lit ''k1'')
         \<and> terminated (stop demo_pending) (lit ''k1'')
         \<and> (\<forall>ws. client demo_pending = Some ws \<and> ws \<in> set (handlers demo_pending) \<longrightarrow>
                terminated (on_close ws demo_pending) (lit ''k1''))
         \<and> (\<forall>now ws msg. lit ''k1'' \<noteq> [] \<and> getProp msg (lit ''type'') = JStr (lit ''response'')
                \<and> getProp msg (lit ''id'') = JStr (lit ''k1'') \<longrightarrow>
               (case handleMessage now ws (Some msg) demo_pending of
                  Inl err \<Rightarrow> False
                | Inr s' \<Rightarrow> terminated s' (lit ''k1'')
                    \<and> settled s' = settled demo_pending @ [(lit ''k1'', response_outcome msg)]))"
    using pend [THEN conjunct2, THEN conjunct1, THEN bspec, OF k] fl by (rule mp)
  have oc: "terminated (on_close 3 demo_pending) (lit ''k1'')"
    using inner c by blast
  have hm: "case handleMessage (lit ''t2'') 3 (Some late_response) demo_pending of
            Inl err \<Rightarrow> False
          | Inr s' \<Rightarrow> terminated s' (lit ''k1'')
              \<and> settled s' = settled demo_pending @ [(lit ''k1'', response_outcome late_response)]"
    using inner lr lit_keys(3) by blast
  have four: "terminated (on_timeout (lit ''k1'') demo_pending) (lit ''k1'')
      \<and> terminated (stop demo_pending) (lit ''k1'')
      \<and> terminated (on_close 3 demo_pending) (lit ''k1'')"
    using inner oc by blast
  from hm have resp: "\<not> isl (handleMessage (lit ''t2'') 3 (Some late_response) demo_pending)
      \<and> terminated (projr (handleMessage (lit ''t2'') 3 (Some late_response) demo_pending)) (lit ''k1'')"
    by (auto split: sum.splits)
  show ?thesis
    using demo_run_result demo_run_fresh d st t demo_run_pending_result demo_run_pending_fresh
      dp fl four resp dropped
    by blast
qed

section \<open>Properties of the extension\<close>

subsection \<open>Reconnection\<close>

text \<open>
  Claim C10, with the reset where the code has it.
  With \<open>n\<close> attempts counted, \<open>scheduleReconnect\<close> arms the timer
  with \<open>min(1000 * 2^n, 30000)\<close> milliseconds and counts one more when
  \<open>n < 50\<close>, and arms nothing when \<open>n \<ge> 50\<close>. The counter is
  reset to zero when the socket opens, before any \<open>auth_result\<close> is received;
  an \<open>auth_result\<close> frame, successful or not, leaves the counter as it is.
\<close>

theorem reconnect_backoff:
  "(reconnectAttempts s < 50 \<longrightarrow>
       reconnectTimer (scheduleReconnect s) = Some (min (1000 * 2 ^ reconnectAttempts s) 30000)
     \<and> reconnectAttempts (scheduleReconnect s) = reconnectAttempts s + 1)
 \<and> (reconnectAttempts s \<ge> 50 \<longrightarrow>
       reconnectTimer (scheduleReconnect s) = reconnectTimer s
     \<and> reconnectAttempts (scheduleReconnect s) = reconnectAttempts s
     \<and> badges (scheduleReconnect s) = badges s @ [BadgeError])
 \<and> reconnectAttempts (ws_onopen extensionId s) = 0
 \<and> (getProp msg (lit ''type'') = JStr (lit ''auth_result'') \<longrightarrow>
       reconnectAttempts (snd (ext_handleMessage pf br others (Some msg) s)) = reconnectAttempts s)"
proof -
  have nn: "msg \<noteq> JNull \<and> msg \<noteq> JUndefined" if "getProp msg (lit ''type'') = JStr (lit ''auth_result'')"
    using that by auto
  show ?thesis
    using nn
    by (auto simp: scheduleReconnect_def Let_def MAX_RECONNECT_ATTEMPTS_def RECONNECT_BASE_MS_def
        RECONNECT_MAX_MS_def updateBadge_def ws_onopen_def startKeepalive_def stopKeepalive_def
        ext_handleMessage_def split: option.splits)
qed

theorem reconnect_backoff_witness:
  "reconnectTimer (scheduleReconnect three_attempts) = Some 8000
 \<and> reconnectTimer (scheduleReconnect five_attempts) = Some 30000
 \<and> reconnectTimer (scheduleReconnect fifty_attempts) = None
 \<and> reconnectAttempts (snd (ext_handleMessage demo_platform demo_browser no_others
        (Some auth_result_ok) three_attempts)) = 3"
proof -
  have ty: "getProp auth_result_ok (lit ''type'') = JStr (lit ''auth_result'')"
    by (simp add: auth_result_ok_def lit_def)
  have a3: "reconnectAttempts three_attempts = 3"
    and a5: "reconnectAttempts five_attempts = 5"
    and a50: "reconnectAttempts fifty_attempts = 50"
    and t50: "reconnectTimer fifty_attempts = None"
    by (simp_all add: new_extension_def three_attempts_def five_attempts_def fifty_attempts_def)
  show ?thesis
    using reconnect_backoff [of three_attempts _ auth_result_ok demo_platform demo_browser no_others]
      reconnect_backoff [of five_attempts]
      reconnect_backoff [of fifty_attempts]
    by (simp add: a3 a5 a50 t50 ty)
qed

text \<open>
  A successful \<open>auth_result\<close> received with three attempts counted does not reset the
  counter, and a socket that opens resets it without any \<open>auth_result\<close>.
\<close>

theorem reconnect_reset_counterexample:
  "reconnectAttempts (snd (ext_handleMessage demo_platform demo_browser no_others
        (Some auth_result_ok) three_attempts)) = 3
 \<and> truthy (ext_isAuthenticated (snd (ext_handleMessage demo_platform demo_browser no_others
        (Some auth_result_ok) three_attempts)))
 \<and> reconnectAttempts (ws_onopen (lit ''ext1'') three_attempts) = 0
 \<and> \<not> truthy (ext_isAuthenticated (ws_onopen (lit ''ext1'') three_attempts))"
  by (simp add: ext_handleMessage_def auth_result_ok_def new_extension_def updateBadge_def Let_def
      ws_onopen_def startKeepalive_def stopKeepalive_def lit_def three_attempts_def)

subsection \<open>Navigation\<close>

lemma demo_authenticated_reached:
  "handleMessage (lit ''t0'') 3 (Some (auth_frame (JStr zero_token) (JStr (lit ''ext1'')))) demo_bridge
     = Inr demo_authenticated"
proof -
  have ne: "authToken demo_bridge \<noteq> []" using demo_fields(4) by auto
  have ty: "getProp (auth_frame (JStr zero_token) (JStr (lit ''ext1''))) (lit ''type'') = JStr (lit ''auth'')"
    by (simp add: auth_frame_def lit_def)
  have tk: "getProp (auth_frame (JStr zero_token) (JStr (lit ''ext1''))) (lit ''token'') = JStr (authToken demo_bridge)"
    by (simp add: auth_frame_def lit_def demo_token toHex_zero)
  show ?thesis
    unfolding handleMessage_auth [OF ne ty] tk
    by (simp add: demo_authenticated_def runCallbacks_def ws_send_def demo_fields
        demo_bridge_def on_connection_def start_def new_WebSocketBridge_def Let_def)
qed

lemma sendCommand_connected:
  assumes "connected b" and "client b = Some c"
  shows "sendCommand uuid now command ps timeoutMs b =
     (Inr uuid, b \<lparr>
        auditLog := auditLog b @ [\<lparr> audit_timestamp = now, action = command, params = sanitizeForLog ps \<rparr>],
        timers := AList.update uuid (command, timeoutMs) (timers b),
        pending := AList.update uuid \<lparr> promise = uuid, timer = uuid \<rparr> (pending b),
        sent := sent b @ [(c, command_frame uuid command ps)] \<rparr>)"
  using assms by (simp add: sendCommand_def Let_def audit_def ws_send_def command_frame_def)

lemma command_frame_props:
  "getProp (command_frame uuid command ps) (lit ''type'') = JStr (lit ''command'')"
  "getProp (command_frame uuid command ps) (lit ''command'') = JStr command"
  "getProp (command_frame uuid command ps) (lit ''id'') = JStr uuid"
  "getProp (command_frame uuid command ps) (lit ''params'') = JObj ps"
  "getProp (command_frame uuid command ps) (lit ''tabId'') = JUndefined"
  "command_frame uuid command ps \<noteq> JNull" "command_frame uuid command ps \<noteq> JUndefined"
  by (simp_all add: command_frame_def lit_def)

lemma failure_response_props:
  "getProp (failure_response uuid e) (lit ''type'') = JStr (lit ''response'')"
  "getProp (failure_response uuid e) (lit ''id'') = JStr uuid"
  "response_outcome (failure_response uuid e) = Rejected (PeerError (JStr e))"
  by (simp_all add: failure_response_def response_outcome_def lit_def)

lemma navigate_refused:
  assumes "ext_ws x = Some OPEN" and "truthy (ext_isAuthenticated x)"
    and "\<not> isUrlAllowed pf x (getProp (JObj ps) (lit ''url''))"
  shows "ext_handleMessage pf br others (Some (command_frame uuid (lit ''navigate'') ps)) x =
     (False, x \<lparr> ext_sent := ext_sent x @ [failure_response uuid
        (case activeTab br of
           None \<Rightarrow> lit ''No active tab found''
         | Some n \<Rightarrow> if n = 0 then lit ''No active tab found''
                     else not_in_allowlist pf (getProp (JObj ps) (lit ''url'')))] \<rparr>)"
proof -
  have l: "lit ''navigate'' \<noteq> lit ''ping''" "lit ''command'' \<noteq> lit ''auth_result''"
    "lit ''No active tab found'' \<noteq> []"
    "lit ''URL not in allowlist: '' @ t \<noteq> []" for t
    by (simp_all add: lit_def)
  show ?thesis
    using assms l
    by (auto simp: ext_handleMessage_def executeCommand_def command_frame_props Let_def
        sendResponse_def failure_response_def not_in_allowlist_def split: option.splits)
qed

text \<open>
  Claim C1, with the allowlist check where the code has it.
  A connected bridge forwards every \<open>navigate\<close> command: whatever
  \<open>params.url\<close> is, \<open>sendCommand\<close> writes the audit record,
  registers the command as pending and sends the command frame to the peer. The allowlist
  is enforced by the extension: on a \<open>navigate\<close> command whose URL
  \<open>isUrlAllowed\<close> does not accept, the authenticated peer calls
  \<open>chrome.tabs.update\<close> not at all and answers with a failure response, whose
  error is "URL not in allowlist: ..." when there is a tab to act on; on that response
  the bridge rejects the call with the peer's error.
\<close>

theorem navigate_forwarded_and_refused_by_peer:
  assumes "connected b" and "client b = Some c" and "uuid \<noteq> []"
    and "ext_ws x = Some OPEN" and "truthy (ext_isAuthenticated x)"
    and "\<not> isUrlAllowed pf x (getProp (JObj ps) (lit ''url''))"
  shows "(let b' = snd (sendCommand uuid now (lit ''navigate'') ps timeoutMs b);
              frame = command_frame uuid (lit ''navigate'') ps;
              x' = snd (ext_handleMessage pf br others (Some frame) x);
              e = (case activeTab br of
                     None \<Rightarrow> lit ''No active tab found''
                   | Some n \<Rightarrow> if n = 0 then lit ''No active tab found''
                               else not_in_allowlist pf (getProp (JObj ps) (lit ''url'')))
          in fst (sendCommand uuid now (lit ''navigate'') ps timeoutMs b) = Inr uuid
           \<and> sent b' = sent b @ [(c, frame)]
           \<and> map_of (pending b') uuid = Some \<lparr> promise = uuid, timer = uuid \<rparr>
           \<and> auditLog b' = auditLog b @ [\<lparr> audit_timestamp = now, action = lit ''navigate'',
                  params = sanitizeForLog ps \<rparr>]
           \<and> navigations x' = navigations x
           \<and> ext_sent x' = ext_sent x @ [failure_response uuid e]
           \<and> handleMessage now' c (Some (failure_response uuid e)) b' =
                Inr (settle uuid (Rejected (PeerError (JStr e)))
                      (pending_delete uuid (clearTimeout uuid b'))))"
proof -
  let ?b' = "snd (sendCommand uuid now (lit ''navigate'') ps timeoutMs b)"
  let ?e = "(case activeTab br of
                     None \<Rightarrow> lit ''No active tab found''
                   | Some n \<Rightarrow> if n = 0 then lit ''No active tab found''
                               else not_in_allowlist pf (getProp (JObj ps) (lit ''url'')))"
  have p: "map_of (pending ?b') uuid = Some \<lparr> promise = uuid, timer = uuid \<rparr>"
    by (simp add: sendCommand_connected [OF assms(1,2)] update_conv')
  have h: "handleMessage now' c (Some (failure_response uuid ?e)) ?b' =
      Inr (settle uuid (Rejected (PeerError (JStr ?e))) (pending_delete uuid (clearTimeout uuid ?b')))"
    using handleMessage_response [OF failure_response_props(1,2) assms(3) p, where e1 = ?e and now = now' and ws = c]
    by (simp add: failure_response_props)
  show ?thesis
    unfolding Let_def h
    by (simp add: sendCommand_connected [OF assms(1,2)] navigate_refused [OF assms(4,5,6)]
        update_conv')
qed

lemma demo_authenticated_fields:
  "connected demo_authenticated" "client demo_authenticated = Some 3"
  "sent demo_authenticated = [(3, auth_ok_frame demo_bridge)]"
  "allowedOrigins demo_authenticated = [lit ''localhost'']"
  "auditLog demo_authenticated = []" "pending demo_authenticated = []"
  by (simp_all add: demo_authenticated_def connected_def demo_fields)

lemma evil_not_allowed:
  "\<not> isUrlAllowed demo_platform demo_extension (getProp (JObj evil_params) (lit ''url''))"
  by (simp add: isUrlAllowed_def demo_platform_def demo_extension_def new_extension_def
      evil_params_def origin_matches_def endsWith_def Let_def lit_def templateString_def)

theorem navigate_forwarded_and_refused_by_peer_witness:
  "fst (sendCommand (lit ''k1'') (lit ''t1'') (lit ''navigate'') evil_params 30000 demo_authenticated)
     = Inr (lit ''k1'')
 \<and> sent (snd (sendCommand (lit ''k1'') (lit ''t1'') (lit ''navigate'') evil_params 30000 demo_authenticated))
     = [(3, auth_ok_frame demo_bridge), (3, command_frame (lit ''k1'') (lit ''navigate'') evil_params)]
 \<and> navigations (snd (ext_handleMessage demo_platform demo_browser no_others
        (Some (command_frame (lit ''k1'') (lit ''navigate'') evil_params)) demo_extension)) = []
 \<and> ext_sent (snd (ext_handleMessage demo_platform demo_browser no_others
        (Some (command_frame (lit ''k1'') (lit ''navigate'') evil_params)) demo_extension))
     = [failure_response (lit ''k1'')
          (lit ''URL not in allowlist: https://evil.example/. Add the domain to your server config.'')]"
proof -
  have x: "ext_ws demo_extension = Some OPEN" "truthy (ext_isAuthenticated demo_extension)"
    "navigations demo_extension = []" "ext_sent demo_extension = []"
    by (simp_all add: demo_extension_def new_extension_def)
  have e: "(case activeTab demo_browser of
              None \<Rightarrow> lit ''No active tab found''
            | Some n \<Rightarrow> if n = 0 then lit ''No active tab found''
                else not_in_allowlist demo_platform (getProp (JObj evil_params) (lit ''url'')))
      = lit ''URL not in allowlist: https://evil.example/. Add the domain to your server config.''"
    by (simp add: demo_browser_def not_in_allowlist_def demo_platform_def evil_params_def lit_def
        templateString_def)
  have k: "lit ''k1'' \<noteq> []" by simp
  show ?thesis
    using navigate_forwarded_and_refused_by_peer [OF demo_authenticated_fields(1,2) k x(1,2) evil_not_allowed,
        where now = "lit ''t1''" and timeoutMs = 30000 and br = demo_browser
          and others = no_others and now' = "lit ''t2''"]
    unfolding e Let_def
    by (simp only: demo_authenticated_fields x append_Nil append_Cons)
qed

text \<open>
  Scenario 7 on the bridge: with the allowlist \<open>["localhost"]\<close>, the call for
  \<open>https://evil.example/\<close>, which the allowlist does not accept, is not rejected, and
  its frame is sent to the peer.
\<close>

theorem navigate_local_rejection_counterexample:
  "allowedOrigins demo_authenticated = [lit ''localhost'']
 \<and> \<not> isUrlAllowed demo_platform demo_extension (getProp (JObj evil_params) (lit ''url''))
 \<and> fst (sendCommand (lit ''k1'') (lit ''t1'') (lit ''navigate'') evil_params 30000 demo_authenticated)
      = Inr (lit ''k1'')
 \<and> sent (snd (sendCommand (lit ''k1'') (lit ''t1'') (lit ''navigate'') evil_params 30000 demo_authenticated))
      = sent demo_authenticated @ [(3, command_frame (lit ''k1'') (lit ''navigate'') evil_params)]"
  using evil_not_allowed
  by (simp add: sendCommand_connected [OF demo_authenticated_fields(1,2)] demo_authenticated_fields)

section \<open>Properties of the baseline store\<close>

lemma startsWith_iff: "startsWith s t = (\<exists>v. s = t @ v)"
  by (induction s t rule: startsWith.induct) auto

lemma str_includes_iff: "str_includes s t = (\<exists>u v. s = u @ t @ v)"
proof (induction s)
  case Nil
  then show ?case by auto
next
  case (Cons x xs)
  show ?case
  proof
    assume "str_includes (x # xs) t"
    then consider "startsWith (x # xs) t" | "str_includes xs t" by auto
    then show "\<exists>u v. x # xs = u @ t @ v"
    proof cases
      case 1
      then obtain v where "x # xs = t @ v" by (auto simp: startsWith_iff)
      then have "x # xs = [] @ t @ v" by simp
      then show ?thesis by blast
    next
      case 2
      then obtain u v where "xs = u @ t @ v" using Cons.IH by auto
      then have "x # xs = (x # u) @ t @ v" by simp
      then show ?thesis by blast
    qed
  next
    assume "\<exists>u v. x # xs = u @ t @ v"
    then obtain u v where uv: "x # xs = u @ t @ v" by auto
    show "str_includes (x # xs) t"
    proof (cases u)
      case Nil
      then have "startsWith (x # xs) t" using uv by (auto simp: startsWith_iff)
      then show ?thesis by simp
    next
      case (Cons a u')
      then have "xs = u' @ t @ v" using uv by simp
      then have "str_includes xs t" using Cons.IH by auto
      then show ?thesis by simp
    qed
  qed
qed

text \<open>
  Claim C9.  For a name that contains the substring "..", the character "/" or the
  character "\", each of \<open>save\<close>, \<open>saveDiff\<close>, \<open>load\<close> and \<open>exists\<close> fails with the
  invalid-name error and leaves the file system as it was: no file is changed and no
  call to \<open>node:fs\<close> is made.
\<close>

theorem invalid_name_rejected:
  assumes "(\<exists>u v. nm = u @ lit ''..'' @ v) \<or> (\<exists>u v. nm = u @ lit ''/'' @ v)
         \<or> (\<exists>u v. nm = u @ backslash @ v)"
  shows "save join baseDir nm pngBuffer fs = (Inl (InvalidName nm), fs)
       \<and> saveDiff join baseDir nm pngBuffer fs = (Inl (InvalidName nm), fs)
       \<and> load join baseDir nm fs = (Inl (InvalidName nm), fs)
       \<and> exists_baseline join baseDir nm fs = (Inl (InvalidName nm), fs)"
proof -
  have "validateName nm = Some (InvalidName nm)"
    using assms by (auto simp: validateName_def str_includes_iff)
  then show ?thesis
    by (simp add: save_def saveDiff_def load_def exists_baseline_def)
qed

theorem invalid_name_rejected_witness:
  "save demo_join (lit ''baselines'') (lit ''../etc/passwd'') [1] demo_fs
      = (Inl (InvalidName (lit ''../etc/passwd'')), demo_fs)
 \<and> load demo_join (lit ''baselines'') (lit ''a'' @ backslash @ lit ''b'') demo_fs
      = (Inl (InvalidName (lit ''a'' @ backslash @ lit ''b'')), demo_fs)"
proof -
  have a: "(\<exists>u v. lit ''../etc/passwd'' = u @ lit ''..'' @ v) \<or> (\<exists>u v. lit ''../etc/passwd'' = u @ lit ''/'' @ v)
         \<or> (\<exists>u v. lit ''../etc/passwd'' = u @ backslash @ v)"
  proof -
    have "lit ''../etc/passwd'' = [] @ lit ''..'' @ lit ''/etc/passwd''"
      by (simp add: lit_def)
    then show ?thesis by blast
  qed
  have b: "(\<exists>u v. lit ''a'' @ backslash @ lit ''b'' = u @ lit ''..'' @ v)
         \<or> (\<exists>u v. lit ''a'' @ backslash @ lit ''b'' = u @ lit ''/'' @ v)
         \<or> (\<exists>u v. lit ''a'' @ backslash @ lit ''b'' = u @ backslash @ v)"
    by blast
  show ?thesis
    using invalid_name_rejected [OF a, of demo_join "lit ''baselines''" "[1]" demo_fs]
      invalid_name_rejected [OF b, of demo_join "lit ''baselines''" "[1]" demo_fs]
    by blast
qed

section \<open>Properties of the image comparator\<close>

subsection \<open>Rounding to a double\<close>

lemmas double_eval = round_double_def double_exponent_def exponent_down.simps exponent_up.simps
  scale2_def round_half_even_def Let_def js_number_def

lemma scale2_powi: "scale2 x q = x * 2 powi q"
  by (simp add: scale2_def power_int_def field_simps)

lemma exponent_up_bounds:
  "1 \<le> x \<Longrightarrow> \<exists>k. exponent_up x u = u + k \<and> 2 ^ k \<le> x \<and> x < 2 * 2 ^ k"
proof (induction x u rule: exponent_up.induct)
  case (1 x u)
  show ?case
  proof (cases "2 \<le> x")
    case True
    then have "1 \<le> x / 2" by simp
    from 1(1) [OF True this] obtain k where
      k: "exponent_up (x / 2) (u + 1) = u + 1 + k" "2 ^ k \<le> x / 2" "x / 2 < 2 * 2 ^ k"
      by blast
    have "exponent_up x u = u + Suc k" using True k(1) by (subst exponent_up.simps) simp
    moreover have "2 ^ Suc k \<le> x" "x < 2 * 2 ^ Suc k" using k(2,3) by simp_all
    ultimately show ?thesis by blast
  next
    case False
    then have "exponent_up x u = u + 0" by (subst exponent_up.simps) simp
    moreover have "2 ^ (0::nat) \<le> x" "x < 2 * 2 ^ (0::nat)" using False 1(2) by simp_all
    ultimately show ?thesis by blast
  qed
qed

lemma exponent_down_bounds:
  "0 < x \<Longrightarrow> x < 1 \<Longrightarrow> \<exists>k. exponent_down x d = d + k \<and> 1 \<le> x * 2 ^ k \<and> x * 2 ^ k < 2"
proof (induction x d rule: exponent_down.induct)
  case (1 x d)
  have rec: "exponent_down x d = exponent_down (2 * x) (d + 1)"
    using 1(2,3) by (subst exponent_down.simps) simp
  show ?case
  proof (cases "2 * x < 1")
    case True
    have "0 < x \<and> x < 1" using 1(2,3) by simp
    from 1(1) [OF this _ True] 1(2) obtain k where
      k: "exponent_down (2 * x) (d + 1) = d + 1 + k" "1 \<le> 2 * x * 2 ^ k" "2 * x * 2 ^ k < 2"
      by auto
    have "exponent_down x d = d + Suc k" using rec k(1) by simp
    moreover have "1 \<le> x * 2 ^ Suc k" "x * 2 ^ Suc k < 2" using k(2,3) by (simp_all add: mult.commute mult.left_commute)
    ultimately show ?thesis by blast
  next
    case False
    then have "exponent_down (2 * x) (d + 1) = d + 1" by (subst exponent_down.simps) simp
    then have "exponent_down x d = d + 1" using rec by simp
    moreover have "1 \<le> x * 2 ^ (1::nat)" "x * 2 ^ (1::nat) < 2" using False 1(3) by simp_all
    ultimately show ?thesis by blast
  qed
qed

lemma double_exponent_bounds:
  assumes "0 < x"
  shows "2 powi double_exponent x \<le> x \<and> x < 2 powi (double_exponent x + 1)"
proof (cases "x < 1")
  case True
  from exponent_down_bounds [OF assms True, of 0] obtain k where
    k: "exponent_down x 0 = k" "1 \<le> x * 2 ^ k" "x * 2 ^ k < 2" by auto
  have e: "double_exponent x = - int k" using True k(1) by (simp add: double_exponent_def)
  have p: "(2::real) powi (- int k) = 1 / 2 ^ k" by (simp add: power_int_minus field_simps)
  have "(2::real) powi (- int k + 1) = 2 powi (- int k) * 2"
    by (subst power_int_add) simp_all
  then have p1: "(2::real) powi (- int k + 1) = 2 / 2 ^ k" using p by simp
  show ?thesis using k(2,3) unfolding e p p1 by (simp add: field_simps)
next
  case False
  then have "1 \<le> x" by simp
  from exponent_up_bounds [OF this, of 0] obtain k where
    k: "exponent_up x 0 = k" "2 ^ k \<le> x" "x < 2 * 2 ^ k" by auto
  have e: "double_exponent x = int k" using False k(1) by (simp add: double_exponent_def)
  have "(2::real) powi (int k + 1) = 2 powi (int k) * 2"
    by (subst power_int_add) simp_all
  then show ?thesis using k(2,3) unfolding e by simp
qed

lemma round_half_even_error: "\<bar>of_int (round_half_even y) - y\<bar> \<le> 1 / 2"
proof -
  have "of_int \<lfloor>y\<rfloor> \<le> y" "y < of_int \<lfloor>y\<rfloor> + 1" by linarith+
  then show ?thesis by (auto simp: round_half_even_def Let_def)
qed

lemma round_half_even_int: "round_half_even (of_int k) = k"
  by (simp add: round_half_even_def)

lemma powi_mono2: "a \<le> b \<Longrightarrow> (2::real) powi a \<le> 2 powi b"
  by (rule power_int_increasing) simp_all

lemma powi_less_iff2: "(2::real) powi a < 2 powi b \<longleftrightarrow> a < b"
proof
  assume l: "(2::real) powi a < 2 powi b"
  show "a < b"
  proof (rule ccontr)
    assume "\<not> a < b"
    then have "b \<le> a" by simp
    then have "(2::real) powi b \<le> 2 powi a" by (rule power_int_increasing) simp
    then show False using l by simp
  qed
next
  assume "a < b"
  then show "(2::real) powi a < 2 powi b" by (rule power_int_strict_increasing) simp
qed

lemma round_double_scaled:
  assumes lo: "1 / 2 ^ 1022 \<le> x"
  shows "\<exists>v. round_double x = (if 2 ^ 1024 \<le> v then Infinity else Num v)
           \<and> \<bar>v - x\<bar> \<le> x / 2 ^ 53"
proof -
  have pos: "0 < x" using lo by (smt (verit) divide_pos_pos zero_less_power)
  define e where "e = double_exponent x"
  have eb: "2 powi e \<le> x" "x < 2 powi (e + 1)"
    using double_exponent_bounds [OF pos] by (simp_all add: e_def)
  have "(2::real) powi (- 1022) \<le> x" using lo by (simp add: power_int_minus field_simps)
  then have "(2::real) powi (- 1022) < 2 powi (e + 1)" using eb(2) by linarith
  then have "- 1022 < e + 1" by (simp only: powi_less_iff2)
  then have elo: "- 1022 \<le> e" by simp
  define q where "q = e - 52"
  have q: "max (double_exponent x) (- 1022) - 52 = q" using elo by (simp add: q_def e_def)
  define c :: real where "c = 2 powi q"
  have cpos: "0 < c" by (simp add: c_def)
  have cinv: "2 powi (- q) = 1 / c" by (simp add: c_def power_int_minus field_simps)
  have "e = q + 52" "e + 1 = q + 53" by (simp_all add: q_def)
  then have "(2::real) powi e = 2 powi (q + 52)" by (simp only:)
  also have "\<dots> = c * 2 ^ 52" unfolding c_def by (subst power_int_add) simp_all
  finally have pe: "(2::real) powi e = c * 2 ^ 52" .
  have "(2::real) powi (e + 1) = 2 powi (q + 53)" using \<open>e + 1 = q + 53\<close> by (simp only:)
  also have "\<dots> = c * 2 ^ 53" unfolding c_def by (subst power_int_add) simp_all
  finally have pe1: "(2::real) powi (e + 1) = c * 2 ^ 53" .
  define y where "y = x / c"
  have ysc: "scale2 x (- q) = y" by (simp add: scale2_powi cinv y_def)
  have xy: "x = y * c" using cpos by (simp add: y_def)
  have ylo: "2 ^ 52 \<le> y" using eb(1) cpos unfolding pe y_def by (simp add: field_simps)
  define m where "m = round_half_even y"
  have merr: "\<bar>of_int m - y\<bar> \<le> 1 / 2" unfolding m_def by (rule round_half_even_error)
  define v where "v = of_int m * c"
  have vsc: "scale2 (of_int m) q = v" by (simp add: scale2_powi c_def v_def)
  have "v - x = (of_int m - y) * c" by (simp add: v_def xy algebra_simps)
  then have "\<bar>v - x\<bar> = \<bar>of_int m - y\<bar> * c" using cpos by (simp add: abs_mult)
  also have "\<dots> \<le> 1 / 2 * c" using merr cpos by (intro mult_right_mono) simp_all
  also have "\<dots> \<le> y * c / 2 ^ 53"
  proof -
    have "1 / 2 \<le> y / 2 ^ 53" using ylo by simp
    then have "1 / 2 * c \<le> y / 2 ^ 53 * c" using cpos by (intro mult_right_mono) simp_all
    then show ?thesis by simp
  qed
  finally have err: "\<bar>v - x\<bar> \<le> x / 2 ^ 53" by (simp add: xy)
  have "x \<noteq> 0" using pos by simp
  then have "round_double x = (if 2 ^ 1024 \<le> v then Infinity else Num v)"
    unfolding round_double_def q Let_def ysc m_def [symmetric] vsc by simp
  then show ?thesis using err by blast
qed

lemma round_double_normal:
  assumes lo: "1 / 2 ^ 1022 \<le> x" and hi: "x < 2 ^ 1023"
  shows "\<exists>v. round_double x = Num v \<and> \<bar>v - x\<bar> \<le> x / 2 ^ 53"
proof -
  from round_double_scaled [OF lo] obtain v where
    v: "round_double x = (if 2 ^ 1024 \<le> v then Infinity else Num v)" "\<bar>v - x\<bar> \<le> x / 2 ^ 53"
    by blast
  have pos: "0 < x" using lo by (smt (verit) divide_pos_pos zero_less_power)
  have "x / 2 ^ 53 \<le> x" using pos by (simp add: field_simps)
  then have "v \<le> 2 * x" using v(2) by linarith
  then have "v < 2 ^ 1024" using hi by simp
  then have "round_double x = Num v" using v(1) by simp
  then show ?thesis using v(2) by blast
qed

lemma round_double_positive:
  assumes "1 \<le> x"
  shows "round_double x = Infinity \<or> (\<exists>v. round_double x = Num v \<and> 0 < v)"
proof -
  have "(1::real) / 2 ^ 1022 \<le> 1" by simp
  then have lo: "1 / 2 ^ 1022 \<le> x" using assms by linarith
  from round_double_scaled [OF lo] obtain v where
    v: "round_double x = (if 2 ^ 1024 \<le> v then Infinity else Num v)" "\<bar>v - x\<bar> \<le> x / 2 ^ 53"
    by blast
  have "x / 2 ^ 53 \<le> x / 2" using assms by (simp add: field_simps)
  then have "0 < v" using v(2) assms by linarith
  then show ?thesis using v(1) by (cases "(2::real) ^ 1024 \<le> v") simp_all
qed


lemma round_double_nat:
  assumes "n < 2 ^ 53"
  shows "round_double (real n) = Num (real n)"
proof (cases "n = 0")
  case True
  then show ?thesis by (simp add: round_double_def)
next
  case False
  define x where "x = real n"
  have pos: "0 < x" "1 \<le> x" using False by (simp_all add: x_def)
  have "real n < real (2 ^ 53)" using assms by (simp only: of_nat_less_iff)
  then have hi: "x < 2 ^ 53" by (simp add: x_def)
  define e where "e = double_exponent x"
  have eb: "2 powi e \<le> x" "x < 2 powi (e + 1)"
    using double_exponent_bounds [OF pos(1)] by (simp_all add: e_def)
  have "(2::real) powi 0 < 2 powi (e + 1)" using eb(2) pos(2) by simp
  then have "0 < e + 1" by (simp only: powi_less_iff2)
  then have e0: "0 \<le> e" by simp
  have "(2::real) powi e < 2 powi 53" using eb(1) hi by simp
  then have "e < 53" by (simp only: powi_less_iff2)
  define j where "j = nat (52 - e)"
  have j: "e = 52 - int j" "j \<le> 52" using e0 \<open>e < 53\<close> by (simp_all add: j_def)
  have q: "max (double_exponent x) (- 1022) - 52 = - int j" using e0 j by (simp add: e_def [symmetric])
  have ysc: "scale2 x (- (- int j)) = of_int (int (n * 2 ^ j))" by (simp add: scale2_def x_def)
  have vsc: "scale2 (of_int (int (n * 2 ^ j))) (- int j) = x"
    by (simp add: scale2_def x_def)
  have "x \<noteq> 0" "\<not> 2 ^ 1024 \<le> x" using pos hi by simp_all
  then have "round_double x = Num x"
    unfolding round_double_def q Let_def ysc round_half_even_int vsc by simp
  then show ?thesis by (simp add: x_def)
qed

lemma percentage_zero:
  assumes "0 < t"
  shows "js_times (js_divide (js_number 0) (js_number t)) (Num 100) = Num 0"
proof -
  have z: "round_double 0 = Num 0" by (simp add: round_double_def)
  have "1 \<le> real t" using assms by simp
  from round_double_positive [OF this]
  have "js_divide (Num 0) (js_number t) = Num 0"
    unfolding js_number_def by (auto simp: z)
  then show ?thesis by (simp add: js_number_def z)
qed

lemma percentage_double:
  assumes n: "0 < n" "n < 2 ^ 53" and t: "0 < t" "t < 2 ^ 53"
  shows "\<exists>x. js_times (js_divide (js_number n) (js_number t)) (Num 100) = Num x
           \<and> 0 < x
           \<and> \<bar>x - 100 * real n / real t\<bar> \<le> (100 * real n / real t) / 2 ^ 51"
proof -
  have jn: "js_number n = Num (real n)" using n(2) unfolding js_number_def by (rule round_double_nat)
  have jt: "js_number t = Num (real t)" using t(2) unfolding js_number_def by (rule round_double_nat)
  define x1 where "x1 = real n / real t"
  have "real t < real (2 ^ 53)" using t(2) by (simp only: of_nat_less_iff)
  then have tr: "0 < real t" "real t < 2 ^ 53" using t(1) by simp_all
  have "real n < real (2 ^ 53)" using n(2) by (simp only: of_nat_less_iff)
  then have nr: "1 \<le> real n" "real n < 2 ^ 53" using n(1) by simp_all
  have "1 / 2 ^ 53 \<le> 1 / real t" using tr by (simp add: field_simps)
  also have "\<dots> \<le> x1" unfolding x1_def using nr(1) tr(1) by (simp add: field_simps)
  finally have x1lo: "1 / 2 ^ 53 \<le> x1" .
  have "x1 \<le> real n" unfolding x1_def using t(1) nr(1)
    by (simp add: field_simps mult_le_cancel_left1)
  then have x1hi: "x1 < 2 ^ 53" using nr(2) by simp
  have "(1::real) / 2 ^ 1022 \<le> 1 / 2 ^ 53" by simp
  then have a1: "1 / 2 ^ 1022 \<le> x1" using x1lo by simp
  have "(2::real) ^ 53 < 2 ^ 1023" by simp
  then have a2: "x1 < 2 ^ 1023" using x1hi by simp
  from round_double_normal [OF a1 a2] obtain d1 where
    d1: "round_double x1 = Num d1" "\<bar>d1 - x1\<bar> \<le> x1 / 2 ^ 53" by blast
  have x1pos: "0 < x1" using x1lo by (smt (verit) divide_pos_pos zero_less_power)
  have "x1 / 2 ^ 53 \<le> x1 / 2" using x1pos by (simp add: field_simps)
  then have d1b: "x1 / 2 \<le> d1" "d1 \<le> 2 * x1" using d1(2) x1pos by linarith+
  define x2 where "x2 = d1 * 100"
  have "(1::real) / 2 ^ 1022 \<le> 1 / 2 ^ 53 / 2 * 100" by simp
  also have "\<dots> \<le> x2" unfolding x2_def using d1b(1) x1lo by simp
  finally have b1: "1 / 2 ^ 1022 \<le> x2" .
  have "x2 < 2 * 2 ^ 53 * 100" unfolding x2_def using d1b(2) x1hi by simp
  also have "\<dots> < (2::real) ^ 1023" by simp
  finally have b2: "x2 < 2 ^ 1023" .
  from round_double_normal [OF b1 b2] obtain v where
    v: "round_double x2 = Num v" "\<bar>v - x2\<bar> \<le> x2 / 2 ^ 53" by blast
  have x2pos: "0 < x2" unfolding x2_def using d1b(1) x1pos by simp
  have "x2 / 2 ^ 53 \<le> x2 / 2" using x2pos by (simp add: field_simps)
  then have vpos: "0 < v" using v(2) x2pos by linarith
  have res: "js_times (js_divide (js_number n) (js_number t)) (Num 100) = Num v"
    using tr(1) d1(1) v(1) by (simp add: jn jt x1_def x2_def)
  have "\<bar>100 * (d1 - x1)\<bar> = 100 * \<bar>d1 - x1\<bar>" by (simp only: abs_mult abs_numeral)
  moreover have "v - 100 * x1 = (v - x2) + 100 * (d1 - x1)" by (simp add: x2_def)
  ultimately have "\<bar>v - 100 * x1\<bar> \<le> \<bar>v - x2\<bar> + 100 * \<bar>d1 - x1\<bar>"
    using abs_triangle_ineq [of "v - x2" "100 * (d1 - x1)"] by simp
  also have "\<dots> \<le> x2 / 2 ^ 53 + 100 * (x1 / 2 ^ 53)" using v(2) d1(2) by (intro add_mono mult_left_mono) simp_all
  also have "\<dots> \<le> 2 * x1 * 100 / 2 ^ 53 + 100 * (x1 / 2 ^ 53)"
    unfolding x2_def using d1b(2) by (simp add: field_simps)
  also have "\<dots> \<le> 100 * x1 / 2 ^ 51" using x1pos by (simp add: field_simps)
  finally have "\<bar>v - 100 * real n / real t\<bar> \<le> (100 * real n / real t) / 2 ^ 51"
    by (simp add: x1_def)
  then show ?thesis using res vpos by blast
qed

text \<open>
  The percentage of \<open>n\<close> differing pixels among \<open>t\<close>, for counts that doubles hold
  exactly: it is a finite double, zero only for \<open>n = 0\<close>, and after its two roundings
  within a relative \<open>2^-51\<close> of \<open>100 * n / t\<close>.
\<close>

lemma percentage_bounds:
  assumes "0 < t" and "n < 2 ^ 53" and "t < 2 ^ 53"
  shows "\<exists>x. js_times (js_divide (js_number n) (js_number t)) (Num 100) = Num x
           \<and> (x = 0) = (n = 0)
           \<and> \<bar>x - 100 * real n / real t\<bar> \<le> 100 * real n / real t / 2 ^ 51"
proof (cases "n = 0")
  case True
  then show ?thesis using percentage_zero [OF assms(1)] by simp
next
  case False
  then have "0 < n" by simp
  from percentage_double [OF this assms(2) assms(1) assms(3)] False
  show ?thesis by auto
qed

subsection \<open>The comparison\<close>

lemma compareScreenshots_same_size:
  assumes "png_read nd expected = Some img1" and "png_read nd actual = Some img2"
    and "png_width img1 = png_width img2" and "png_height img1 = png_height img2"
  shows "compareScreenshots nd actual expected (Some t) =
     Inr \<lparr> match = (fst (pixelmatch nd (png_data img1) (png_data img2) (png_width img1) (png_height img1) t) = 0),
           diffPixels = int (fst (pixelmatch nd (png_data img1) (png_data img2) (png_width img1) (png_height img1) t)),
           totalPixels = png_width img1 * png_height img1,
           diffPercentage = js_times (js_divide
              (js_number (fst (pixelmatch nd (png_data img1) (png_data img2) (png_width img1) (png_height img1) t)))
              (js_number (png_width img1 * png_height img1))) (Num 100),
           diffImageBase64 = Some (toBase64 nd (png_write nd \<lparr> png_width = png_width img1,
              png_height = png_height img1,
              png_data = snd (pixelmatch nd (png_data img1) (png_data img2) (png_width img1) (png_height img1) t) \<rparr>)) \<rparr>"
  using assms by (simp add: compareScreenshots_def Let_def case_prod_unfold)

text \<open>
  Claim C6.  For two PNGs that decode to images of the same, non-empty size, the result
  has \<open>match = (diffPixels = 0)\<close>, with \<open>diffPixels\<close> the count \<open>pixelmatch\<close> reports at
  the threshold and \<open>totalPixels\<close> the width times the height; the threshold enters in no
  other way.  \<open>diffPercentage\<close> is the double \<open>(diffPixels / totalPixels) * 100\<close>, the
  quotient rounded and the product rounded again.  When both counts are below \<open>2^53\<close>
  it is a finite number, zero exactly when \<open>diffPixels\<close> is zero, and differs from
  \<open>100 * diffPixels / totalPixels\<close> by at most that value times \<open>2^-51\<close>.  For a PNG
  compared with itself the result has \<open>match = true\<close>, no differing pixel and a
  percentage of zero at every threshold between 0 and 1, provided \<open>pixelmatch\<close> reports no
  difference between equal data.
\<close>

theorem compare_match_is_zero_diff:
  assumes "png_read nd expected = Some img1" and "png_read nd actual = Some img2"
    and "png_width img1 = png_width img2" and "png_height img1 = png_height img2"
    and "0 < png_width img1 * png_height img1"
  shows "(case compareScreenshots nd actual expected (Some t) of
            Inl e \<Rightarrow> False
          | Inr r \<Rightarrow>
              match r = (diffPixels r = 0)
            \<and> diffPixels r = int (fst (pixelmatch nd (png_data img1) (png_data img2)
                                        (png_width img1) (png_height img1) t))
            \<and> totalPixels r = png_width img1 * png_height img1
            \<and> diffPercentage r =
                js_times (js_divide (js_number (nat (diffPixels r))) (js_number (totalPixels r)))
                  (Num 100)
            \<and> (diffPixels r < 2 ^ 53 \<and> totalPixels r < 2 ^ 53 \<longrightarrow>
                  (\<exists>x. diffPercentage r = Num x
                     \<and> (x = 0) = (diffPixels r = 0)
                     \<and> \<bar>x - 100 * real_of_int (diffPixels r) / real (totalPixels r)\<bar>
                         \<le> 100 * real_of_int (diffPixels r) / real (totalPixels r) / 2 ^ 51)))
       \<and> (pixelmatch_reflexive nd \<and> 0 \<le> t \<and> t \<le> 1 \<longrightarrow>
            (case compareScreenshots nd expected expected (Some t) of
               Inl e \<Rightarrow> False
             | Inr r \<Rightarrow> match r \<and> diffPixels r = 0 \<and> diffPercentage r = Num 0))"
proof -
  define n where "n = fst (pixelmatch nd (png_data img1) (png_data img2)
                             (png_width img1) (png_height img1) t)"
  define tot where "tot = png_width img1 * png_height img1"
  have pos: "0 < tot" using assms(5) by (simp add: tot_def)
  have bound: "\<exists>x. js_times (js_divide (js_number n) (js_number tot)) (Num 100) = Num x
                  \<and> (x = 0) = (int n = 0)
                  \<and> \<bar>x - 100 * real_of_int (int n) / real tot\<bar>
                      \<le> 100 * real_of_int (int n) / real tot / 2 ^ 51"
    if "int n < 2 ^ 53" "tot < 2 ^ 53"
  proof -
    have "n < 2 ^ 53" using that(1) by (simp only: flip: of_nat_less_iff [where 'a = int]) simp
    from percentage_bounds [OF pos this that(2)] show ?thesis by simp
  qed
  have a: "case compareScreenshots nd actual expected (Some t) of
            Inl e \<Rightarrow> False
          | Inr r \<Rightarrow>
              match r = (diffPixels r = 0)
            \<and> diffPixels r = int (fst (pixelmatch nd (png_data img1) (png_data img2)
                                        (png_width img1) (png_height img1) t))
            \<and> totalPixels r = png_width img1 * png_height img1
            \<and> diffPercentage r =
                js_times (js_divide (js_number (nat (diffPixels r))) (js_number (totalPixels r)))
                  (Num 100)
            \<and> (diffPixels r < 2 ^ 53 \<and> totalPixels r < 2 ^ 53 \<longrightarrow>
                  (\<exists>x. diffPercentage r = Num x
                     \<and> (x = 0) = (diffPixels r = 0)
                     \<and> \<bar>x - 100 * real_of_int (diffPixels r) / real (totalPixels r)\<bar>
                         \<le> 100 * real_of_int (diffPixels r) / real (totalPixels r) / 2 ^ 51))"
    unfolding compareScreenshots_same_size [OF assms(1-4)] n_def [symmetric] tot_def [symmetric]
    using bound by simp
  have b: "case compareScreenshots nd expected expected (Some t) of
               Inl e \<Rightarrow> False
             | Inr r \<Rightarrow> match r \<and> diffPixels r = 0 \<and> diffPercentage r = Num 0"
    if "pixelmatch_reflexive nd" "0 \<le> t" "t \<le> 1"
  proof -
    have z: "fst (pixelmatch nd (png_data img1) (png_data img1) (png_width img1) (png_height img1) t) = 0"
      using that by (simp add: pixelmatch_reflexive_def)
    show ?thesis
      unfolding compareScreenshots_same_size [OF assms(1) assms(1) refl refl] z
        tot_def [symmetric]
      using percentage_zero [OF pos] by simp
  qed
  show ?thesis using a b by blast
qed

lemma count_diff_same: "count_diff d d = 0"
  by (induction d) (auto simp: count_diff_def)

lemma demo_node_reflexive: "pixelmatch_reflexive demo_node"
  by (simp add: pixelmatch_reflexive_def demo_node_def count_diff_same)

lemma demo_node_reads:
  "png_read demo_node image_1x1 = Some \<lparr> png_width = 1, png_height = 1, png_data = [9, 9, 9, 255] \<rparr>"
  "png_read demo_node image_2x1 = Some \<lparr> png_width = 2, png_height = 1,
      png_data = [9, 9, 9, 255, 9, 9, 9, 255] \<rparr>"
  by (simp_all add: demo_node_def image_1x1_def image_2x1_def)

lemma count_diff_append:
  "length a = length c \<Longrightarrow> count_diff (a @ b) (c @ d) = count_diff a c + count_diff b d"
  by (simp add: count_diff_def)

lemma count_diff_pixels:
  "length p = length q \<Longrightarrow>
     count_diff (concat (replicate n p)) (concat (replicate n q)) = n * count_diff p q"
  by (induction n) (simp_all add: count_diff_append, simp add: count_diff_def)

lemma length_concat_replicate: "length (concat (replicate n p)) = n * length p"
  by (induction n) simp_all

lemma demo_node_reads_5x4:
  "png_read demo_node image_5x4 = Some \<lparr> png_width = 5, png_height = 4,
      png_data = concat (replicate 20 [9, 9, 9, 255]) \<rparr>"
  "png_read demo_node image_5x4_changed = Some \<lparr> png_width = 5, png_height = 4,
      png_data = concat (replicate 11 [7, 9, 9, 255]) @ concat (replicate 9 [9, 9, 9, 255]) \<rparr>"
  by (simp_all add: demo_node_def image_5x4_def image_5x4_changed_def length_concat_replicate)

lemma demo_node_reads_16x10:
  "png_read demo_node image_16x10 = Some \<lparr> png_width = 16, png_height = 10,
      png_data = concat (replicate 160 [9, 9, 9, 255]) \<rparr>"
  "png_read demo_node image_16x10_changed = Some \<lparr> png_width = 16, png_height = 10,
      png_data = concat (replicate 23 [7, 9, 9, 255]) @ concat (replicate 137 [9, 9, 9, 255]) \<rparr>"
  by (simp_all add: demo_node_def image_16x10_def image_16x10_changed_def length_concat_replicate)

lemma demo_pixelmatch_changed:
  "fst (pixelmatch demo_node
          (concat (replicate (i + j) [9, 9, 9, 255]))
          (concat (replicate i [7, 9, 9, 255]) @ concat (replicate j [9, 9, 9, 255])) w h t) = i"
proof -
  have "count_diff (concat (replicate i [9, 9, 9, 255 :: 8 word]) @ concat (replicate j [9, 9, 9, 255]))
          (concat (replicate i [7, 9, 9, 255]) @ concat (replicate j [9, 9, 9, 255]))
        = i * count_diff [9, 9, 9, 255 :: 8 word] [7, 9, 9, 255] + 0"
    by (simp add: count_diff_append count_diff_pixels count_diff_same length_concat_replicate)
  moreover have "count_diff [9, 9, 9, 255 :: 8 word] [7, 9, 9, 255] = 1"
    by (simp add: count_diff_def)
  ultimately show ?thesis by (simp add: demo_node_def replicate_add)
qed

lemma demo_pixelmatch_5x4:
  "fst (pixelmatch demo_node (concat (replicate 20 [9, 9, 9, 255]))
          (concat (replicate 11 [7, 9, 9, 255]) @ concat (replicate 9 [9, 9, 9, 255])) w h t) = 11"
  using demo_pixelmatch_changed [of 11 9 w h t] by simp

lemma demo_pixelmatch_16x10:
  "fst (pixelmatch demo_node (concat (replicate 160 [9, 9, 9, 255]))
          (concat (replicate 23 [7, 9, 9, 255]) @ concat (replicate 137 [9, 9, 9, 255])) w h t) = 23"
  using demo_pixelmatch_changed [of 23 137 w h t] by simp

theorem compare_match_is_zero_diff_witness:
  "png_read demo_node image_16x10 = Some \<lparr> png_width = 16, png_height = 10,
      png_data = concat (replicate 160 [9, 9, 9, 255]) \<rparr>
 \<and> png_read demo_node image_16x10_changed = Some \<lparr> png_width = 16, png_height = 10,
      png_data = concat (replicate 23 [7, 9, 9, 255]) @ concat (replicate 137 [9, 9, 9, 255]) \<rparr>
 \<and> pixelmatch_reflexive demo_node
 \<and> \<not> isl (compareScreenshots demo_node image_16x10_changed image_16x10 (Some (1 / 10)))
 \<and> \<not> match (projr (compareScreenshots demo_node image_16x10_changed image_16x10 (Some (1 / 10))))
 \<and> diffPixels (projr (compareScreenshots demo_node image_16x10_changed image_16x10 (Some (1 / 10)))) = 23
 \<and> totalPixels (projr (compareScreenshots demo_node image_16x10_changed image_16x10 (Some (1 / 10)))) = 160
 \<and> diffPercentage (projr (compareScreenshots demo_node image_16x10_changed image_16x10 (Some (1 / 10))))
      = js_times (js_divide (js_number 23) (js_number 160)) (Num 100)
 \<and> (\<exists>x. diffPercentage (projr (compareScreenshots demo_node image_16x10_changed image_16x10 (Some (1 / 10))))
           = Num x
        \<and> x \<noteq> 0 \<and> \<bar>x - 115 / 8\<bar> \<le> 115 / 8 / 2 ^ 51)
 \<and> js_times (js_divide (js_number 23) (js_number 160)) (Num 100) = Num (115 / 8 - 1 / 2 ^ 49)
 \<and> \<not> isl (compareScreenshots demo_node image_16x10 image_16x10 (Some (1 / 10)))
 \<and> match (projr (compareScreenshots demo_node image_16x10 image_16x10 (Some (1 / 10))))
 \<and> diffPixels (projr (compareScreenshots demo_node image_16x10 image_16x10 (Some (1 / 10)))) = 0
 \<and> diffPercentage (projr (compareScreenshots demo_node image_16x10 image_16x10 (Some (1 / 10)))) = Num 0"
proof -
  have p: "0 < png_width \<lparr> png_width = 16, png_height = 10,
                png_data = concat (replicate 160 [9, 9, 9, 255 :: 8 word]) \<rparr>
             * png_height \<lparr> png_width = 16, png_height = 10,
                png_data = concat (replicate 160 [9, 9, 9, 255 :: 8 word]) \<rparr>"
    by simp
  have t: "(0::real) \<le> 1 / 10 \<and> (1::real) / 10 \<le> 1" by simp
  have v: "js_times (js_divide (js_number 23) (js_number 160)) (Num 100) = Num (115 / 8 - 1 / 2 ^ 49)"
    by (simp add: double_eval)
  have d: "png_width \<lparr> png_width = 16, png_height = 10,
                png_data = concat (replicate 160 [9, 9, 9, 255 :: 8 word]) \<rparr>
         = png_width \<lparr> png_width = 16, png_height = 10,
                png_data = concat (replicate 23 [7, 9, 9, 255 :: 8 word]) @ concat (replicate 137 [9, 9, 9, 255]) \<rparr>"
     "png_height \<lparr> png_width = 16, png_height = 10,
                png_data = concat (replicate 160 [9, 9, 9, 255 :: 8 word]) \<rparr>
         = png_height \<lparr> png_width = 16, png_height = 10,
                png_data = concat (replicate 23 [7, 9, 9, 255 :: 8 word]) @ concat (replicate 137 [9, 9, 9, 255]) \<rparr>"
    by simp_all
  show ?thesis
    using compare_match_is_zero_diff [OF demo_node_reads_16x10(1) demo_node_reads_16x10(2) d p,
        of "1 / 10"]
      demo_node_reflexive t demo_node_reads_16x10 v
    by (auto split: sum.splits simp: demo_pixelmatch_16x10)
qed

text \<open>
  With 11 differing pixels among 20 the number \<open>100 * 11 / 20 = 55\<close> is a double, and
  the percentage returned is another one, the next above it: \<open>55.00000000000001\<close>.
\<close>

theorem compare_percentage_rounding_counterexample:
  "diffPixels (projr (compareScreenshots demo_node image_5x4_changed image_5x4 (Some (1 / 10)))) = 11
 \<and> totalPixels (projr (compareScreenshots demo_node image_5x4_changed image_5x4 (Some (1 / 10)))) = 20
 \<and> round_double (100 * 11 / 20) = Num 55
 \<and> diffPercentage (projr (compareScreenshots demo_node image_5x4_changed image_5x4 (Some (1 / 10))))
      = Num (55 + 1 / 2 ^ 47)
 \<and> diffPercentage (projr (compareScreenshots demo_node image_5x4_changed image_5x4 (Some (1 / 10))))
      \<noteq> Num (100 * 11 / 20)"
proof -
  have r: "compareScreenshots demo_node image_5x4_changed image_5x4 (Some (1 / 10)) =
     Inr \<lparr> match = False, diffPixels = 11, totalPixels = 20,
           diffPercentage = js_times (js_divide (js_number 11) (js_number 20)) (Num 100),
           diffImageBase64 = Some (toBase64 demo_node (png_write demo_node \<lparr> png_width = 5,
              png_height = 4,
              png_data = snd (pixelmatch demo_node
                (concat (replicate 20 [9, 9, 9, 255]))
                (concat (replicate 11 [7, 9, 9, 255]) @ concat (replicate 9 [9, 9, 9, 255])) 5 4 (1 / 10)) \<rparr>)) \<rparr>"
    unfolding compareScreenshots_same_size [OF demo_node_reads_5x4(1) demo_node_reads_5x4(2), simplified]
    by (simp add: demo_pixelmatch_5x4)
  have v: "js_times (js_divide (js_number 11) (js_number 20)) (Num 100) = Num (55 + 1 / 2 ^ 47)"
    by (simp add: double_eval)
  have w: "round_double 55 = Num 55"
    by (simp add: double_eval)
  show ?thesis unfolding r by (simp add: v w)
qed

section \<open>Properties of the visual comparison tool\<close>

lemma toFixed2_100: "toFixed2 nd (Num 100) = lit ''100.00''"
proof -
  have f: "\<lfloor>(100::real) * 100 + 1 / 2\<rfloor> = 10000"
    by (simp add: floor_eq_iff)
  have d: "digits 100 = lit ''100''"
    by (simp add: digits.simps lit_def)
  show ?thesis
    by (simp add: f d Let_def lit_def)
qed

lemma compareScreenshots_size_mismatch:
  assumes "png_read nd expected = Some img1" and "png_read nd actual = Some img2"
    and "png_width img1 \<noteq> png_width img2 \<or> png_height img1 \<noteq> png_height img2"
  shows "compareScreenshots nd actual expected threshold_opt =
     Inr \<lparr> match = False, diffPixels = - 1, totalPixels = png_width img1 * png_height img1,
           diffPercentage = Num 100, diffImageBase64 = None \<rparr>"
  using assms by (auto simp: compareScreenshots_def Let_def)

lemma load_present:
  assumes "validateName nm = None" and "map_of (files fs) (jn [baseDir, nm @ lit ''.png'']) = Some baseline"
  shows "load jn baseDir nm fs =
     (Inr (Some baseline), fs \<lparr> fs_calls := fs_calls fs @
        [ExistsSync (jn [baseDir, nm @ lit ''.png'']), ReadFileSync (jn [baseDir, nm @ lit ''.png''])] \<rparr>)"
  using assms by (simp add: load_def Let_def existsSync_def readFileSync_def)

text \<open>
  Claim C7, with the result as the code returns it.
  When \<open>test_visual_compare\<close> runs against an existing baseline and the fresh
  screenshot decodes to other dimensions than the baseline, the tool returns
  \<open>match:false\<close>, \<open>diffPixels:-1\<close>, \<open>totalPixels\<close>
  the product of the baseline's width and height, and \<open>diffPercentage\<close> as
  the string "100.00"; it records one failed assertion and writes no file: it only tests
  for the baseline and reads it.
\<close>

theorem visual_compare_size_mismatch:
  assumes "validateName nm = None"
    and "map_of (files fs) (path_join nd [baseDir, nm @ lit ''.png'']) = Some baseline"
    and "res \<noteq> JNull" and "res \<noteq> JUndefined"
    and "bufferFrom nd (getProp res (lit ''data'')) = Some actual"
    and "png_read nd baseline = Some img1" and "png_read nd actual = Some img2"
    and "png_width img1 \<noteq> png_width img2 \<or> png_height img1 \<noteq> png_height img2"
  shows "test_visual_compare nd baseDir toISO now nm threshold_opt (Inr res) (fs, sess) =
     (Inr (JObj [(lit ''match'', JBool False),
                 (lit ''diffPixels'', JNum (- 1)),
                 (lit ''diffPercentage'', JStr (lit ''100.00'')),
                 (lit ''totalPixels'', JNum (of_nat (png_width img1 * png_height img1))),
                 (lit ''name'', JStr nm)]),
      fs \<lparr> fs_calls := fs_calls fs @
        [ExistsSync (path_join nd [baseDir, nm @ lit ''.png'']),
         ReadFileSync (path_join nd [baseDir, nm @ lit ''.png''])] \<rparr>,
      sess \<lparr> assertions := assertions sess @
        [\<lparr> passed = False,
           message = lit ''Visual snapshot '' @ dquote @ nm @ dquote @ lit '' matches baseline'',
           timestamp = toISO now \<rparr>] \<rparr>)"
  using assms(3,4,5)
  by (simp add: test_visual_compare_def load_present [where jn = "path_join nd", OF assms(1,2)]
      compareScreenshots_size_mismatch [OF assms(6,7,8)] toFixed2_100 addAssertion_def
      del: toFixed2.simps)

lemma ucast_roundtrip: "map ((ucast :: 16 word \<Rightarrow> 8 word) \<circ> (ucast :: 8 word \<Rightarrow> 16 word)) bs = bs"
  by (induction bs) (simp_all add: ucast_down_ucast_id is_down)

lemma demo_visual_facts:
  "validateName (lit ''home'') = None"
  "map_of (files demo_fs1) (path_join demo_node [lit ''baselines'', lit ''home'' @ lit ''.png'']) = Some image_1x1"
  "screenshot_2x1 \<noteq> JNull" "screenshot_2x1 \<noteq> JUndefined"
  "bufferFrom demo_node (getProp screenshot_2x1 (lit ''data'')) = Some image_2x1"
  by (simp_all add: validateName_def backslash_def lit_def demo_fs1_def demo_node_def demo_join_def
      screenshot_2x1_def ucast_roundtrip)

theorem visual_compare_size_mismatch_witness:
  "test_visual_compare demo_node (lit ''baselines'') demo_toISO 0 (lit ''home'') None
       (Inr screenshot_2x1) (demo_fs1, new_TestSession) =
     (Inr (JObj [(lit ''match'', JBool False),
                 (lit ''diffPixels'', JNum (- 1)),
                 (lit ''diffPercentage'', JStr (lit ''100.00'')),
                 (lit ''totalPixels'', JNum 1),
                 (lit ''name'', JStr (lit ''home''))]),
      demo_fs1 \<lparr> fs_calls := [ExistsSync (lit ''/baselines/home.png''),
                               ReadFileSync (lit ''/baselines/home.png'')] \<rparr>,
      new_TestSession \<lparr> assertions :=
        [\<lparr> passed = False,
           message = lit ''Visual snapshot '' @ dquote @ lit ''home'' @ dquote @ lit '' matches baseline'',
           timestamp = lit ''2026'' \<rparr>] \<rparr>)"
proof -
  have d: "png_width \<lparr> png_width = 1, png_height = 1, png_data = [9, 9, 9, 255 :: 8 word] \<rparr>
        \<noteq> png_width \<lparr> png_width = 2, png_height = 1, png_data = [9, 9, 9, 255, 9, 9, 9, 255 :: 8 word] \<rparr>
      \<or> png_height \<lparr> png_width = 1, png_height = 1, png_data = [9, 9, 9, 255 :: 8 word] \<rparr>
        \<noteq> png_height \<lparr> png_width = 2, png_height = 1, png_data = [9, 9, 9, 255, 9, 9, 9, 255 :: 8 word] \<rparr>"
    by simp
  have p: "path_join demo_node [lit ''baselines'', lit ''home'' @ lit ''.png''] = lit ''/baselines/home.png''"
    by (simp add: demo_node_def demo_join_def lit_def)
  have f: "fs_calls demo_fs1 = []" "assertions new_TestSession = []"
    by (simp_all add: demo_fs1_def new_TestSession_def)
  show ?thesis
    using visual_compare_size_mismatch [OF demo_visual_facts demo_node_reads(1) demo_node_reads(2) d,
        of demo_toISO 0 None new_TestSession]
    by (simp add: p f demo_toISO_def)
qed

text \<open>
  Scenario 8 with a screenshot of another size: after the call the store holds no diff
  file for the name, no file was written, and the percentage returned is a string.
\<close>

theorem visual_compare_no_diff_file_counterexample:
  "files (fst (snd (test_visual_compare demo_node (lit ''baselines'') demo_toISO 0 (lit ''home'') None
          (Inr screenshot_2x1) (demo_fs1, new_TestSession)))) = files demo_fs1
 \<and> map_of (files (fst (snd (test_visual_compare demo_node (lit ''baselines'') demo_toISO 0 (lit ''home'') None
          (Inr screenshot_2x1) (demo_fs1, new_TestSession)))))
        (path_join demo_node [lit ''baselines'', lit ''diffs'', lit ''home'' @ lit ''.diff.png'']) = None
 \<and> fs_calls (fst (snd (test_visual_compare demo_node (lit ''baselines'') demo_toISO 0 (lit ''home'') None
          (Inr screenshot_2x1) (demo_fs1, new_TestSession))))
      = [ExistsSync (lit ''/baselines/home.png''), ReadFileSync (lit ''/baselines/home.png'')]
 \<and> fst (test_visual_compare demo_node (lit ''baselines'') demo_toISO 0 (lit ''home'') None
          (Inr screenshot_2x1) (demo_fs1, new_TestSession))
      = Inr (JObj [(lit ''match'', JBool False),
                   (lit ''diffPixels'', JNum (- 1)),
                   (lit ''diffPercentage'', JStr (lit ''100.00'')),
                   (lit ''totalPixels'', JNum 1),
                   (lit ''name'', JStr (lit ''home''))])"
proof -
  have d: "png_width \<lparr> png_width = 1, png_height = 1, png_data = [9, 9, 9, 255 :: 8 word] \<rparr>
        \<noteq> png_width \<lparr> png_width = 2, png_height = 1, png_data = [9, 9, 9, 255, 9, 9, 9, 255 :: 8 word] \<rparr>
      \<or> png_height \<lparr> png_width = 1, png_height = 1, png_data = [9, 9, 9, 255 :: 8 word] \<rparr>
        \<noteq> png_height \<lparr> png_width = 2, png_height = 1, png_data = [9, 9, 9, 255, 9, 9, 9, 255 :: 8 word] \<rparr>"
    by simp
  have p: "path_join demo_node [lit ''baselines'', lit ''home'' @ lit ''.png''] = lit ''/baselines/home.png''"
    by (simp add: demo_node_def demo_join_def lit_def)
  have q: "map_of (files demo_fs1) (path_join demo_node [lit ''baselines'', lit ''diffs'', lit ''home'' @ lit ''.diff.png'']) = None"
    by (simp add: demo_node_def demo_join_def demo_fs1_def lit_def)
  have f: "fs_calls demo_fs1 = []"
    by (simp add: demo_fs1_def)
  have h: "test_visual_compare demo_node (lit ''baselines'') demo_toISO 0 (lit ''home'') None
          (Inr screenshot_2x1) (demo_fs1, new_TestSession) =
     (Inr (JObj [(lit ''match'', JBool False),
                 (lit ''diffPixels'', JNum (- 1)),
                 (lit ''diffPercentage'', JStr (lit ''100.00'')),
                 (lit ''totalPixels'', JNum (of_nat (1 * 1))),
                 (lit ''name'', JStr (lit ''home''))]),
      demo_fs1 \<lparr> fs_calls := fs_calls demo_fs1 @
        [ExistsSync (path_join demo_node [lit ''baselines'', lit ''home'' @ lit ''.png'']),
         ReadFileSync (path_join demo_node [lit ''baselines'', lit ''home'' @ lit ''.png''])] \<rparr>,
      new_TestSession \<lparr> assertions := assertions new_TestSession @
        [\<lparr> passed = False,
           message = lit ''Visual snapshot '' @ dquote @ lit ''home'' @ dquote @ lit '' matches baseline'',
           timestamp = demo_toISO 0 \<rparr>] \<rparr>)"
    using demo_visual_facts(3,4,5)
    by (simp add: test_visual_compare_def load_present [where jn = "path_join demo_node", OF demo_visual_facts(1,2)]
      compareScreenshots_size_mismatch [OF demo_node_reads(1) demo_node_reads(2) d] toFixed2_100 addAssertion_def
      del: toFixed2.simps)
  show ?thesis
    unfolding h by (simp add: p q f)
qed

end
